theory Spec2Isabelle
  imports Complex_Main "HOL-Library.AList"
begin

section \<open>The BMA client: job dispatch, image conversion and EXIF grouping\<close>

text \<open>
  A shallow embedding of \<^verbatim>\<open>src/bma_client.py\<close>: the methods
  \<^verbatim>\<open>handle_job\<close>, \<^verbatim>\<open>handle_image_conversion_job\<close> and
  \<^verbatim>\<open>get_exif\<close> of \<^verbatim>\<open>BmaClient\<close>. Python exceptions are
  values of a sum type (\<open>Inl\<close> the exception), dictionaries are association lists in
  insertion order, \<^verbatim>\<open>fractions.Fraction\<close> is the type \<open>rat\<close>, and the calls
  into Pillow and exifread are recorded in a trace of events. Debug log lines and timing are
  left out; the one \<^verbatim>\<open>logger.error\<close> call is an event.
\<close>

subsection \<open>Exceptions, events and the job descriptor\<close>

datatype error =
    ZeroDivisionError
  | IndexError
  | KeyError
  | ValueError
  | LibraryError string

type_synonym path = string

datatype event =
    ImageOpen path
  | ExifTranspose
  | GetExif
  | ImageOpsFit "int \<times> int"
  | Thumbnail "int \<times> int"
  | ProcessFile path
  | LogError string

text \<open>
  The job dictionary as the server sends it: \<^verbatim>\<open>job["job_type"]\<close>,
  \<^verbatim>\<open>job["width"]\<close>, \<^verbatim>\<open>job["aspect_ratio_numerator"]\<close> and
  \<^verbatim>\<open>job["aspect_ratio_denominator"]\<close>. The two ratio fields are integers or
  \<^verbatim>\<open>None\<close> (JSON null).
\<close>

record job =
  job_type :: string
  width :: int
  aspect_ratio_numerator :: "int option"
  aspect_ratio_denominator :: "int option"

text \<open>Python truth value of an integer-or-None: \<^verbatim>\<open>None\<close> and \<open>0\<close> are false.\<close>

definition truthy :: "int option \<Rightarrow> bool" where
  "truthy x = (case x of None \<Rightarrow> False | Some k \<Rightarrow> k \<noteq> 0)"

text \<open>\<^verbatim>\<open>Fraction(a, b)\<close> raises on a zero denominator; \<^verbatim>\<open>w / ratio\<close> raises on a zero ratio.\<close>

definition Fraction :: "int \<Rightarrow> int \<Rightarrow> error + rat" where
  "Fraction a b = (if b = 0 then Inl ZeroDivisionError else Inr (Fract a b))"

definition truediv :: "int \<Rightarrow> rat \<Rightarrow> error + rat" where
  "truediv a r = (if r = 0 then Inl ZeroDivisionError else Inr (of_int a / r))"

subsection \<open>Size and ratio (lines 199 to 209)\<close>

text \<open>
  \<^verbatim>\<open>
  if job["aspect_ratio_numerator"] and job["aspect_ratio_denominator"]:
      ratio = Fraction(job["aspect_ratio_numerator"], job["aspect_ratio_denominator"])
      height = math.floor(job["width"] / ratio)
  else:
      ratio = None
      height = math.floor(job["width"] / Fraction(*image.size))
  size = math.floor(job["width"]), math.floor(height)
  \<close>
  The result is the pair \<open>(size, ratio)\<close>; \<open>math.floor\<close> of an integer is the integer.
\<close>

definition calc_size :: "job \<Rightarrow> int \<times> int \<Rightarrow> error + ((int \<times> int) \<times> rat option)" where
  "calc_size j image_size =
     (if truthy (aspect_ratio_numerator j) \<and> truthy (aspect_ratio_denominator j) then
        (case Fraction (case aspect_ratio_numerator j of Some n \<Rightarrow> n | None \<Rightarrow> 0)
                       (case aspect_ratio_denominator j of Some d \<Rightarrow> d | None \<Rightarrow> 0) of
           Inl e \<Rightarrow> Inl e
         | Inr ratio \<Rightarrow>
            (case truediv (width j) ratio of
               Inl e \<Rightarrow> Inl e
             | Inr q \<Rightarrow> Inr ((width j, \<lfloor>q\<rfloor>), Some ratio)))
      else
        (case Fraction (fst image_size) (snd image_size) of
           Inl e \<Rightarrow> Inl e
         | Inr natural \<Rightarrow>
            (case truediv (width j) natural of
               Inl e \<Rightarrow> Inl e
             | Inr q \<Rightarrow> Inr ((width j, \<lfloor>q\<rfloor>), None))))"

text \<open>\<^verbatim>\<open>if ratio:\<close> on a Fraction-or-None: \<^verbatim>\<open>None\<close> and a zero fraction are false.\<close>

definition ratio_truthy :: "rat option \<Rightarrow> bool" where
  "ratio_truthy r = (case r of None \<Rightarrow> False | Some q \<Rightarrow> q \<noteq> 0)"

subsection \<open>The imaging library as the code calls it\<close>

text \<open>
  Pillow is not part of the repository. The conversion is written over a record of the
  five entry points the code calls, each of which may raise, so that what is proved of the
  method holds for every behaviour of the library.
\<close>

record ('img, 'exif) pil =
  pil_open :: "path \<Rightarrow> error + 'img"
  pil_exif_transpose :: "'img \<Rightarrow> error + 'img"
  pil_getexif :: "'img \<Rightarrow> 'exif"
  pil_size :: "'img \<Rightarrow> int \<times> int"
  pil_fit :: "'img \<Rightarrow> int \<times> int \<Rightarrow> error + 'img"
  pil_thumbnail :: "'img \<Rightarrow> int \<times> int \<Rightarrow> error + 'img"

subsection \<open>handle_image_conversion_job (lines 179 to 222)\<close>

text \<open>
  The method opens the original, normalises its rotation, reads the EXIF data, computes
  the size, and then calls \<^verbatim>\<open>ImageOps.fit\<close> (custom ratio) or
  \<^verbatim>\<open>image.thumbnail\<close> (no ratio). The result is the trace of library calls made
  and either the exception raised or the pair \<open>(image, exif)\<close>.
\<close>

definition handle_image_conversion_job ::
  "('img, 'exif) pil \<Rightarrow> job \<Rightarrow> path \<Rightarrow> event list \<times> (error + 'img \<times> 'exif)" where
  "handle_image_conversion_job L j orig =
     (case pil_open L orig of
        Inl e \<Rightarrow> ([ImageOpen orig], Inl e)
      | Inr raw \<Rightarrow>
         (case pil_exif_transpose L raw of
            Inl e \<Rightarrow> ([ImageOpen orig, ExifTranspose], Inl e)
          | Inr img \<Rightarrow>
             (let exif = pil_getexif L img in
              case calc_size j (pil_size L img) of
                Inl e \<Rightarrow> ([ImageOpen orig, ExifTranspose, GetExif], Inl e)
              | Inr (sz, ratio) \<Rightarrow>
                 if ratio_truthy ratio then
                   (case pil_fit L img sz of
                      Inl e \<Rightarrow> ([ImageOpen orig, ExifTranspose, GetExif, ImageOpsFit sz], Inl e)
                    | Inr out \<Rightarrow>
                       ([ImageOpen orig, ExifTranspose, GetExif, ImageOpsFit sz], Inr (out, exif)))
                 else
                   (case pil_thumbnail L img sz of
                      Inl e \<Rightarrow> ([ImageOpen orig, ExifTranspose, GetExif, Thumbnail sz], Inl e)
                    | Inr out \<Rightarrow>
                       ([ImageOpen orig, ExifTranspose, GetExif, Thumbnail sz], Inr (out, exif))))))"

subsection \<open>get_exif (lines 244 to 266)\<close>

definition SKIP_EXIF_TAGS :: "string list" where
  "SKIP_EXIF_TAGS = [''JPEGThumbnail'', ''TIFFThumbnail'', ''Filename'']"

text \<open>
  \<^verbatim>\<open>tag.split(" ")\<close>: the key is cut at every single space character. Empty pieces are
  kept and the result is never the empty list (\<^verbatim>\<open>"".split(" ") == [""]\<close>).
\<close>

fun split_space :: "string \<Rightarrow> string list" where
  "split_space [] = [[]]"
| "split_space (c # cs) =
     (if c = CHR '' '' then [] # split_space cs
      else (case split_space cs of [] \<Rightarrow> [[c]] | w # ws \<Rightarrow> (c # w) # ws))"

text \<open>
  The grouped result \<^verbatim>\<open>dict[str, dict[str, str]]\<close>. A Python dictionary keeps its keys
  in insertion order, and assigning to a key that is present keeps its place: this is
  \<open>AList.update\<close> on an association list.
\<close>

type_synonym grouped = "(string \<times> (string \<times> string) list) list"

text \<open>
  One round of the loop over \<^verbatim>\<open>tags.items()\<close>, for the entry \<open>(tag, v)\<close>:
  \<^verbatim>\<open>
  if tag in SKIP_EXIF_TAGS:
      continue
  group, *key = tag.split(" ")
  key = key[-1]
  if group not in grouped:
      grouped[group] = {}
  grouped[group][key] = str(value)
  \<close>
  \<^verbatim>\<open>key[-1]\<close> raises IndexError on the empty list. \<open>str_of\<close> is \<^verbatim>\<open>str\<close> on
  the values exifread returns. The debug line of the loop, which reads
  \<^verbatim>\<open>value.field_type\<close> of such a value, is left out with the other debug lines.
\<close>

definition exif_step :: "('v \<Rightarrow> string) \<Rightarrow> grouped \<Rightarrow> string \<times> 'v \<Rightarrow> error + grouped" where
  "exif_step str_of grouped kv =
     (case kv of (tag, v) \<Rightarrow>
        if tag \<in> set SKIP_EXIF_TAGS then Inr grouped
        else
          (case split_space tag of
             [] \<Rightarrow> Inl ValueError
           | grp # key \<Rightarrow>
              if key = [] then Inl IndexError
              else
                (let k = last key;
                     grouped1 = (if grp \<notin> fst ` set grouped
                                 then AList.update grp [] grouped else grouped)
                 in case map_of grouped1 grp of
                      None \<Rightarrow> Inl KeyError
                    | Some sub \<Rightarrow>
                        Inr (AList.update grp (AList.update k (str_of v) sub) grouped1))))"

fun exif_loop :: "('v \<Rightarrow> string) \<Rightarrow> (string \<times> 'v) list \<Rightarrow> grouped \<Rightarrow> error + grouped" where
  "exif_loop str_of [] grouped = Inr grouped"
| "exif_loop str_of (kv # rest) grouped =
     (case exif_step str_of grouped kv of
        Inl e \<Rightarrow> Inl e
      | Inr grouped' \<Rightarrow> exif_loop str_of rest grouped')"

text \<open>
  exifread is not part of the repository: \<open>process_file\<close> (opening the file included)
  gives the flat tags in the order of the dictionary, or raises; \<open>ifd_str\<close> is
  \<^verbatim>\<open>str\<close> on a tag value.
\<close>

record 'v exifread =
  process_file :: "path \<Rightarrow> error + (string \<times> 'v) list"
  ifd_str :: "'v \<Rightarrow> string"

definition get_exif :: "'v exifread \<Rightarrow> path \<Rightarrow> event list \<times> (error + grouped)" where
  "get_exif X fname =
     (case process_file X fname of
        Inl e \<Rightarrow> ([ProcessFile fname], Inl e)
      | Inr tags \<Rightarrow> ([ProcessFile fname], exif_loop (ifd_str X) tags []))"

subsection \<open>handle_job (lines 170 to 177)\<close>

text \<open>
  What a job returns: the pair of the conversion or the grouped dictionary. Python's
  \<^verbatim>\<open>return None\<close> is \<open>Inr None\<close>; an exception is \<open>Inl\<close>.
\<close>

datatype ('img, 'exif) job_result =
    Conversion 'img 'exif
  | ExifData grouped

definition handle_job ::
  "('img, 'exif) pil \<Rightarrow> 'v exifread \<Rightarrow> job \<Rightarrow> path
     \<Rightarrow> event list \<times> (error + ('img, 'exif) job_result option)" where
  "handle_job L X j orig =
     (if job_type j = ''ImageConversionJob'' then
        (case handle_image_conversion_job L j orig of
           (tr, Inl e) \<Rightarrow> (tr, Inl e)
         | (tr, Inr (img, exif)) \<Rightarrow> (tr, Inr (Some (Conversion img exif))))
      else if job_type j = ''ImageExifExtractionJob'' then
        (case get_exif X orig of
           (tr, Inl e) \<Rightarrow> (tr, Inl e)
         | (tr, Inr g) \<Rightarrow> (tr, Inr (Some (ExifData g))))
      else ([LogError (''Unsupported job type '' @ job_type j)], Inr None))"

subsection \<open>Reading the grouped result\<close>

text \<open>\<^verbatim>\<open>result[group][tag]\<close>, with \<open>None\<close> where Python raises KeyError.\<close>

definition lookup2 :: "grouped \<Rightarrow> string \<Rightarrow> string \<Rightarrow> string option" where
  "lookup2 g grp tag = (case map_of g grp of None \<Rightarrow> None | Some sub \<Rightarrow> map_of sub tag)"

text \<open>The number of \<open>(group, tag)\<close> entries of a grouped result.\<close>

definition entry_count :: "grouped \<Rightarrow> nat" where
  "entry_count g = sum_list (map (\<lambda>p. length (snd p)) g)"

text \<open>The slot \<open>(group, tag)\<close> a flat key is stored at: its first and last piece, when it has two.\<close>

definition slot_of :: "string \<Rightarrow> (string \<times> string) option" where
  "slot_of tag =
     (case split_space tag of
        [] \<Rightarrow> None
      | grp # key \<Rightarrow> if key = [] then None else Some (grp, last key))"

text \<open>The entries of a tag list that are not in the skip list.\<close>

definition not_skipped :: "(string \<times> 'v) list \<Rightarrow> (string \<times> 'v) list" where
  "not_skipped tags = filter (\<lambda>kv. fst kv \<notin> set SKIP_EXIF_TAGS) tags"

subsection \<open>Python's str on integers\<close>

text \<open>\<^verbatim>\<open>str(n)\<close> for an integer: its decimal digits, with a minus sign when negative.\<close>

fun str_nat :: "nat \<Rightarrow> string" where
  "str_nat n =
     (if n < 10 then [''0123456789'' ! n]
      else str_nat (n div 10) @ [''0123456789'' ! (n mod 10)])"

definition str_int :: "int \<Rightarrow> string" where
  "str_int i = (if i < 0 then CHR ''-'' # str_nat (nat (- i)) else str_nat (nat i))"

subsection \<open>The spec's tokens of a key\<close>

text \<open>
  The spec's wording for the EXIF keys, for comparison with \<open>split_space\<close>: the key is
  split on whitespace, that is at every run of whitespace characters, giving its non-empty
  tokens (Python's \<^verbatim>\<open>str.split()\<close> with no argument).
\<close>

definition is_whitespace :: "char \<Rightarrow> bool" where
  "is_whitespace c = (c \<in> set [CHR '' '', CHR 0x09, CHR 0x0A, CHR 0x0B, CHR 0x0C, CHR 0x0D])"

fun spec_tokens_from :: "string \<Rightarrow> string \<Rightarrow> string list" where
  "spec_tokens_from cur [] = (if cur = [] then [] else [cur])"
| "spec_tokens_from cur (c # cs) =
     (if is_whitespace c then
        (if cur = [] then spec_tokens_from [] cs else cur # spec_tokens_from [] cs)
      else spec_tokens_from (cur @ [c]) cs)"

definition spec_whitespace_tokens :: "string \<Rightarrow> string list" where
  "spec_whitespace_tokens tag = spec_tokens_from [] tag"

subsection \<open>The imaging operations as the spec describes them\<close>

text \<open>
  An image buffer: its size \<open>(width, height)\<close>, its rows of pixels from top to bottom, and
  its orientation tag, one of the eight EXIF values or absent. Each of the eight values is
  named after the transform that brings a picture stored that way upright (EXIF values 1
  to 8 in this order; \<open>Rotate90\<close> and \<open>Rotate270\<close> turn clockwise).
\<close>

datatype orientation =
    Normal
  | FlipHorizontal
  | Rotate180
  | FlipVertical
  | Transpose
  | Rotate90
  | Transverse
  | Rotate270

record 'p image =
  img_size :: "int \<times> int"
  img_pixels :: "'p list list"
  img_orientation :: "orientation option"

text \<open>
  The transform that brings a stored orientation upright, on the rows of pixels and on the
  size: mirrorings, the half turn, and the four that exchange width and height.
\<close>

fun upright :: "orientation \<Rightarrow> 'p list list \<Rightarrow> 'p list list" where
  "upright Normal rows = rows"
| "upright FlipHorizontal rows = map rev rows"
| "upright Rotate180 rows = rev (map rev rows)"
| "upright FlipVertical rows = rev rows"
| "upright Transpose rows = transpose rows"
| "upright Rotate90 rows = map rev (transpose rows)"
| "upright Transverse rows = rev (map rev (transpose rows))"
| "upright Rotate270 rows = rev (transpose rows)"

fun upright_size :: "orientation \<Rightarrow> int \<times> int \<Rightarrow> int \<times> int" where
  "upright_size Transpose (w, h) = (h, w)"
| "upright_size Rotate90 (w, h) = (h, w)"
| "upright_size Transverse (w, h) = (h, w)"
| "upright_size Rotate270 (w, h) = (h, w)"
| "upright_size other (w, h) = (w, h)"

text \<open>
  Modelled from the spec: \<^verbatim>\<open>ImageOps.exif_transpose\<close> of Pillow, which the code calls
  and which is not under src/. Section 4.2: the normalizer applies the single geometric
  transform, one of eight, that maps the stored orientation to upright, and produces a
  buffer whose orientation tag is reset to normal; a buffer whose tag is normal or absent
  is left as it is.
\<close>

definition OrientationNormalizer :: "'p image \<Rightarrow> 'p image" where
  "OrientationNormalizer x =
     (case img_orientation x of
        None \<Rightarrow> x
      | Some Normal \<Rightarrow> x
      | Some ori \<Rightarrow>
          x\<lparr>img_size := upright_size ori (img_size x),
            img_pixels := upright ori (img_pixels x),
            img_orientation := Some Normal\<rparr>)"

text \<open>
  Modelled from the spec: \<^verbatim>\<open>ImageOps.fit\<close> of Pillow, not under src/. Section 4.3:
  crop-fit crops a centred window of the target's aspect ratio and scales it to the exact
  target pixel dimensions. Which pixels come out is left to the resampling function
  \<open>rs\<close>; the size of the output is the target size.
\<close>

definition crop_fit ::
  "('p list list \<Rightarrow> int \<times> int \<Rightarrow> 'p list list) \<Rightarrow> 'p image \<Rightarrow> int \<times> int \<Rightarrow> 'p image" where
  "crop_fit rs x target = x\<lparr>img_size := target, img_pixels := rs (img_pixels x) target\<rparr>"

text \<open>
  Modelled from the spec: \<^verbatim>\<open>Image.thumbnail\<close> of Pillow, not under src/. Section 4.3
  and the glossary: thumbnail fit scales the whole source down to fit within the box
  \<open>(W, H)\<close>, keeping its aspect ratio, and never upscales: a source that already fits the
  box is left as it is. Otherwise the side of the box that binds is kept and the other
  side follows from the source's ratio, rounded down.
\<close>

definition thumbnail_fit ::
  "('p list list \<Rightarrow> int \<times> int \<Rightarrow> 'p list list) \<Rightarrow> 'p image \<Rightarrow> int \<times> int \<Rightarrow> 'p image" where
  "thumbnail_fit rs x box =
     (case (img_size x, box) of
        ((w0, h0), (W, H)) \<Rightarrow>
          if w0 \<le> W \<and> h0 \<le> H then x
          else
            (let new = (if W * h0 \<le> H * w0 then (W, (W * h0) div w0)
                        else ((H * w0) div h0, H))
             in x\<lparr>img_size := new, img_pixels := rs (img_pixels x) new\<rparr>))"

text \<open>
  A buffer is well formed when its sides are positive and its rows of pixels have the
  size it states.
\<close>

definition well_formed :: "'p image \<Rightarrow> bool" where
  "well_formed x =
     (case img_size x of
        (w, h) \<Rightarrow> 0 < w \<and> 0 < h \<and> int (length (img_pixels x)) = h
                  \<and> list_all (\<lambda>r. int (length r) = w) (img_pixels x))"

text \<open>
  The library made of these operations, over the decoded files \<open>fs\<close> of the disk:
  opening a path that holds no image raises.
\<close>

definition spec_pil ::
  "('p list list \<Rightarrow> int \<times> int \<Rightarrow> 'p list list) \<Rightarrow> (path \<Rightarrow> 'p image option)
     \<Rightarrow> ('p image, orientation option) pil" where
  "spec_pil rs fs =
     \<lparr>pil_open = (\<lambda>p. case fs p of
                           None \<Rightarrow> Inl (LibraryError ''FileNotFoundError'')
                         | Some x \<Rightarrow> Inr x),
      pil_exif_transpose = (\<lambda>x. Inr (OrientationNormalizer x)),
      pil_getexif = img_orientation,
      pil_size = img_size,
      pil_fit = (\<lambda>x target. Inr (crop_fit rs x target)),
      pil_thumbnail = (\<lambda>x box. Inr (thumbnail_fit rs x box))\<rparr>"

subsection \<open>Sample inputs\<close>

text \<open>
  Small concrete inputs on which the properties below are evaluated: a resampling
  function that paints a blank canvas of the target size, an upright image of 4 by 2
  pixels, the same picture stored turned (2 by 4, to be rotated a quarter turn), a disk
  holding the two, and a conversion job.
\<close>

definition blank_canvas :: "nat list list \<Rightarrow> int \<times> int \<Rightarrow> nat list list" where
  "blank_canvas rows target = replicate (nat (snd target)) (replicate (nat (fst target)) 0)"

definition sample_image :: "nat image" where
  "sample_image =
     \<lparr>img_size = (4, 2), img_pixels = [[1, 2, 3, 4], [5, 6, 7, 8]], img_orientation = None\<rparr>"

definition sample_rotated :: "nat image" where
  "sample_rotated =
     \<lparr>img_size = (2, 4), img_pixels = [[4, 8], [3, 7], [2, 6], [1, 5]],
      img_orientation = Some Rotate90\<rparr>"

definition sample_files :: "path \<Rightarrow> nat image option" where
  "sample_files p =
     (if p = ''photo.jpg'' then Some sample_image
      else if p = ''rotated.jpg'' then Some sample_rotated
      else None)"

definition sample_pil :: "(nat image, orientation option) pil" where
  "sample_pil = spec_pil blank_canvas sample_files"

definition conversion_job :: "int \<Rightarrow> int option \<Rightarrow> int option \<Rightarrow> job" where
  "conversion_job W n d =
     \<lparr>job_type = ''ImageConversionJob'', width = W,
      aspect_ratio_numerator = n, aspect_ratio_denominator = d\<rparr>"

text \<open>An exifread that finds the given tags in every file, with integer values.\<close>

definition sample_exifread :: "(string \<times> int) list \<Rightarrow> int exifread" where
  "sample_exifread tags = \<lparr>process_file = (\<lambda>p. Inr tags), ifd_str = str_int\<rparr>"

section \<open>Properties of the code\<close>

subsection \<open>The size computed and the calls made\<close>

lemma calc_size_custom:
  assumes "aspect_ratio_numerator j = Some n" "aspect_ratio_denominator j = Some d"
    and "n \<noteq> 0" "d \<noteq> 0"
  shows "calc_size j sz = Inr ((width j, (width j * d) div n), Some (Fract n d))"
proof -
  have nz: "Fract n d \<noteq> 0"
    using assms by (simp add: Fract_of_int_quotient)
  have "of_int (width j) / Fract n d = Fract (width j * d) n"
    by (simp add: of_int_rat)
  then have "\<lfloor>of_int (width j) / Fract n d\<rfloor> = (width j * d) div n"
    by simp
  then show ?thesis
    using assms nz by (simp add: calc_size_def truthy_def Fraction_def truediv_def)
qed

lemma calc_size_natural:
  assumes "\<not> (truthy (aspect_ratio_numerator j) \<and> truthy (aspect_ratio_denominator j))"
    and "w0 \<noteq> 0" "h0 \<noteq> 0"
  shows "calc_size j (w0, h0) = Inr ((width j, (width j * h0) div w0), None)"
proof -
  have nz: "Fract w0 h0 \<noteq> 0"
    using assms by (simp add: Fract_of_int_quotient)
  have "of_int (width j) / Fract w0 h0 = Fract (width j * h0) w0"
    by (simp add: of_int_rat)
  then have "\<lfloor>of_int (width j) / Fract w0 h0\<rfloor> = (width j * h0) div w0"
    by simp
  then show ?thesis
    using assms nz by (simp add: calc_size_def Fraction_def truediv_def)
qed

lemma Fract_nonzero: "n \<noteq> 0 \<Longrightarrow> d \<noteq> 0 \<Longrightarrow> Fract n d \<noteq> 0"
  by (simp add: Fract_of_int_quotient)

lemma conversion_trace_fit:
  assumes "pil_open L orig = Inr raw" "pil_exif_transpose L raw = Inr img"
    and "calc_size j (pil_size L img) = Inr (sz, Some r)" "r \<noteq> 0"
  shows "fst (handle_image_conversion_job L j orig) =
           [ImageOpen orig, ExifTranspose, GetExif, ImageOpsFit sz]"
  using assms
  by (simp add: handle_image_conversion_job_def ratio_truthy_def split: sum.splits)

lemma conversion_trace_thumbnail:
  assumes "pil_open L orig = Inr raw" "pil_exif_transpose L raw = Inr img"
    and "calc_size j (pil_size L img) = Inr (sz, None)"
  shows "fst (handle_image_conversion_job L j orig) =
           [ImageOpen orig, ExifTranspose, GetExif, Thumbnail sz]"
  using assms
  by (simp add: handle_image_conversion_job_def ratio_truthy_def split: sum.splits)

lemma sample_pil_open [simp]:
  "pil_open sample_pil ''photo.jpg'' = Inr sample_image"
  "pil_open sample_pil ''rotated.jpg'' = Inr sample_rotated"
  by (simp_all add: sample_pil_def spec_pil_def sample_files_def)

lemma sample_pil_transpose [simp]:
  "pil_exif_transpose sample_pil x = Inr (OrientationNormalizer x)"
  by (simp add: sample_pil_def spec_pil_def)

lemma sample_pil_size [simp]: "pil_size sample_pil x = img_size x"
  by (simp add: sample_pil_def spec_pil_def)

lemma normalize_sample_image [simp]: "OrientationNormalizer sample_image = sample_image"
  by (simp add: OrientationNormalizer_def sample_image_def)

lemma conversion_job_fields [simp]:
  "width (conversion_job W n d) = W"
  "aspect_ratio_numerator (conversion_job W n d) = n"
  "aspect_ratio_denominator (conversion_job W n d) = d"
  "job_type (conversion_job W n d) = ''ImageConversionJob''"
  by (simp_all add: conversion_job_def)

subsection \<open>The resolved target size\<close>

text \<open>
  Claim C1. For a conversion job with requested width \<open>W > 0\<close>, whose original opens and
  is normalised to an image of size \<open>(w0, h0)\<close>: with a custom ratio of numerator
  \<open>n > 0\<close> and denominator \<open>d > 0\<close> the size computed, and handed to
  \<^verbatim>\<open>ImageOps.fit\<close>, is \<open>(W, floor (W * d / n))\<close>; with no ratio and \<open>w0, h0 > 0\<close> the
  size computed, and handed to \<^verbatim>\<open>image.thumbnail\<close>, is \<open>(W, floor (W * h0 / w0))\<close>;
  and \<open>W = 1024\<close> with ratio 16 to 9 gives \<open>(1024, 576)\<close>. Integer \<open>div\<close> rounds down.
\<close>

theorem resolved_target_size:
  assumes opened: "pil_open L orig = Inr raw"
    and normalized: "pil_exif_transpose L raw = Inr img"
    and natural: "pil_size L img = (w0, h0)"
    and W: "0 < width j"
  shows "(\<forall>n d. aspect_ratio_numerator j = Some n \<and> aspect_ratio_denominator j = Some d
                \<and> 0 < n \<and> 0 < d \<longrightarrow>
            calc_size j (w0, h0) = Inr ((width j, (width j * d) div n), Some (Fract n d))
            \<and> fst (handle_image_conversion_job L j orig) =
                [ImageOpen orig, ExifTranspose, GetExif,
                 ImageOpsFit (width j, (width j * d) div n)])
       \<and> (aspect_ratio_numerator j = None \<and> aspect_ratio_denominator j = None
             \<and> 0 < w0 \<and> 0 < h0 \<longrightarrow>
            calc_size j (w0, h0) = Inr ((width j, (width j * h0) div w0), None)
            \<and> fst (handle_image_conversion_job L j orig) =
                [ImageOpen orig, ExifTranspose, GetExif,
                 Thumbnail (width j, (width j * h0) div w0)])
       \<and> (width j = 1024 \<and> aspect_ratio_numerator j = Some 16
             \<and> aspect_ratio_denominator j = Some 9 \<longrightarrow>
            fst (handle_image_conversion_job L j orig) =
              [ImageOpen orig, ExifTranspose, GetExif, ImageOpsFit (1024, 576)])"
proof (intro conjI allI impI)
  fix n d
  assume a: "aspect_ratio_numerator j = Some n \<and> aspect_ratio_denominator j = Some d
               \<and> 0 < n \<and> 0 < d"
  then have c: "calc_size j (w0, h0) = Inr ((width j, (width j * d) div n), Some (Fract n d))"
    by (intro calc_size_custom) auto
  show "calc_size j (w0, h0) = Inr ((width j, (width j * d) div n), Some (Fract n d))"
    by (rule c)
  show "fst (handle_image_conversion_job L j orig) =
          [ImageOpen orig, ExifTranspose, GetExif, ImageOpsFit (width j, (width j * d) div n)]"
    using a c natural
    by (intro conversion_trace_fit[OF opened normalized]) (auto simp: Fract_nonzero)
next
  assume a: "aspect_ratio_numerator j = None \<and> aspect_ratio_denominator j = None
               \<and> 0 < w0 \<and> 0 < h0"
  then have c: "calc_size j (w0, h0) = Inr ((width j, (width j * h0) div w0), None)"
    by (intro calc_size_natural) (auto simp: truthy_def)
  show "calc_size j (w0, h0) = Inr ((width j, (width j * h0) div w0), None)"
    by (rule c)
  show "fst (handle_image_conversion_job L j orig) =
          [ImageOpen orig, ExifTranspose, GetExif, Thumbnail (width j, (width j * h0) div w0)]"
    using c natural by (intro conversion_trace_thumbnail[OF opened normalized]) auto
next
  assume a: "width j = 1024 \<and> aspect_ratio_numerator j = Some 16
               \<and> aspect_ratio_denominator j = Some 9"
  then have "calc_size j (pil_size L img)
               = Inr ((width j, (width j * 9) div 16), Some (Fract 16 9))"
    by (intro calc_size_custom) auto
  then have c: "calc_size j (pil_size L img) = Inr ((1024, 576), Some (Fract 16 9))"
    using a by simp
  show "fst (handle_image_conversion_job L j orig) =
          [ImageOpen orig, ExifTranspose, GetExif, ImageOpsFit (1024, 576)]"
    using c by (intro conversion_trace_fit[OF opened normalized]) (auto simp: Fract_nonzero)
qed

theorem resolved_target_size_witness:
  "fst (handle_image_conversion_job sample_pil (conversion_job 1024 (Some 16) (Some 9))
          ''photo.jpg'')
     = [ImageOpen ''photo.jpg'', ExifTranspose, GetExif, ImageOpsFit (1024, 576)]
   \<and> fst (handle_image_conversion_job sample_pil (conversion_job 3 None None) ''photo.jpg'')
     = [ImageOpen ''photo.jpg'', ExifTranspose, GetExif, Thumbnail (3, 1)]"
proof -
  have sz: "pil_size sample_pil sample_image = (4, 2)"
    by (simp add: sample_image_def)
  have tr: "pil_exif_transpose sample_pil sample_image = Inr sample_image"
    by simp
  have "(0::int) < width (conversion_job 1024 (Some 16) (Some 9))"
    by simp
  from resolved_target_size[OF sample_pil_open(1) tr sz this]
  have one: "fst (handle_image_conversion_job sample_pil
                (conversion_job 1024 (Some 16) (Some 9)) ''photo.jpg'')
     = [ImageOpen ''photo.jpg'', ExifTranspose, GetExif, ImageOpsFit (1024, 576)]"
    by simp
  have "(0::int) < width (conversion_job 3 None None)"
    by simp
  from resolved_target_size[OF sample_pil_open(1) tr sz this]
  have two: "fst (handle_image_conversion_job sample_pil (conversion_job 3 None None)
                ''photo.jpg'')
     = [ImageOpen ''photo.jpg'', ExifTranspose, GetExif, Thumbnail (3, 1)]"
    by simp
  from one two show ?thesis by simp
qed

subsection \<open>What the conversion returns\<close>

lemma conversion_result_fit:
  assumes "pil_open L orig = Inr raw" "pil_exif_transpose L raw = Inr img"
    and "calc_size j (pil_size L img) = Inr (sz, Some r)" "r \<noteq> 0"
  shows "snd (handle_image_conversion_job L j orig) =
           (case pil_fit L img sz of Inl e \<Rightarrow> Inl e | Inr out \<Rightarrow> Inr (out, pil_getexif L img))"
  using assms
  by (simp add: handle_image_conversion_job_def ratio_truthy_def split: sum.splits)

lemma conversion_result_thumbnail:
  assumes "pil_open L orig = Inr raw" "pil_exif_transpose L raw = Inr img"
    and "calc_size j (pil_size L img) = Inr (sz, None)"
  shows "snd (handle_image_conversion_job L j orig) =
           (case pil_thumbnail L img sz of
              Inl e \<Rightarrow> Inl e | Inr out \<Rightarrow> Inr (out, pil_getexif L img))"
  using assms
  by (simp add: handle_image_conversion_job_def ratio_truthy_def split: sum.splits)

lemma conversion_opens_first:
  "\<exists>tr. fst (handle_image_conversion_job L j orig) = ImageOpen orig # tr"
  by (simp add: handle_image_conversion_job_def Let_def split: sum.splits prod.splits)

lemma conversion_open_fails:
  "pil_open L orig = Inl e \<Longrightarrow> handle_image_conversion_job L j orig = ([ImageOpen orig], Inl e)"
  by (simp add: handle_image_conversion_job_def)

subsection \<open>A width that is not positive\<close>

text \<open>
  Claim C3, as the spec states it: a conversion job with \<open>W \<le> 0\<close> is rejected with
  InvalidDimension before the source image is decoded, with no decode or transform work
  attempted. The method has no check of the width. For \<open>W = 0\<close> and the ratio 16 to 9 the
  original is opened, turned upright and its EXIF read, and \<^verbatim>\<open>ImageOps.fit\<close> is called
  with the size \<open>(0, 0)\<close>.
\<close>

theorem zero_width_job_is_decoded:
  "fst (handle_image_conversion_job sample_pil (conversion_job 0 (Some 16) (Some 9))
          ''photo.jpg'')
     = [ImageOpen ''photo.jpg'', ExifTranspose, GetExif, ImageOpsFit (0, 0)]"
proof -
  have "calc_size (conversion_job 0 (Some 16) (Some 9)) (pil_size sample_pil sample_image)
          = Inr ((0, 0), Some (Fract 16 9))"
    using calc_size_custom[of "conversion_job 0 (Some 16) (Some 9)" 16 9] by simp
  then show ?thesis
    by (intro conversion_trace_fit[where raw = sample_image and img = sample_image
                and r = "Fract 16 9"])
       (simp_all add: Fract_nonzero)
qed

text \<open>
  Claim C3, amended. For every job with \<open>W \<le> 0\<close> and every behaviour of the library:
  opening the original is the first thing done; when opening fails, the job ends with the
  library's own exception; and when the original opens and is normalised and a ratio
  \<open>n > 0\<close>, \<open>d > 0\<close> is given, \<^verbatim>\<open>ImageOps.fit\<close> is called with the size
  \<open>(W, floor (W * d / n))\<close> and the job returns, or raises, what that call does.
\<close>

theorem no_width_check_before_decode:
  assumes "width j \<le> 0"
  shows "(\<exists>tr. fst (handle_image_conversion_job L j orig) = ImageOpen orig # tr)
       \<and> (\<forall>e. pil_open L orig = Inl e \<longrightarrow>
             handle_image_conversion_job L j orig = ([ImageOpen orig], Inl e))
       \<and> (\<forall>raw img n d.
             pil_open L orig = Inr raw \<and> pil_exif_transpose L raw = Inr img
             \<and> aspect_ratio_numerator j = Some n \<and> aspect_ratio_denominator j = Some d
             \<and> 0 < n \<and> 0 < d \<longrightarrow>
             handle_image_conversion_job L j orig =
               ([ImageOpen orig, ExifTranspose, GetExif,
                 ImageOpsFit (width j, (width j * d) div n)],
                (case pil_fit L img (width j, (width j * d) div n) of
                   Inl e \<Rightarrow> Inl e
                 | Inr out \<Rightarrow> Inr (out, pil_getexif L img))))"
proof (intro conjI allI impI)
  show "\<exists>tr. fst (handle_image_conversion_job L j orig) = ImageOpen orig # tr"
    by (rule conversion_opens_first)
next
  fix e assume "pil_open L orig = Inl e"
  then show "handle_image_conversion_job L j orig = ([ImageOpen orig], Inl e)"
    by (rule conversion_open_fails)
next
  fix raw img n d
  assume a: "pil_open L orig = Inr raw \<and> pil_exif_transpose L raw = Inr img
             \<and> aspect_ratio_numerator j = Some n \<and> aspect_ratio_denominator j = Some d
             \<and> 0 < n \<and> 0 < d"
  then have c: "calc_size j (pil_size L img)
                  = Inr ((width j, (width j * d) div n), Some (Fract n d))"
    by (intro calc_size_custom) auto
  have nz: "Fract n d \<noteq> 0"
    using a by (simp add: Fract_nonzero)
  have "fst (handle_image_conversion_job L j orig) =
          [ImageOpen orig, ExifTranspose, GetExif, ImageOpsFit (width j, (width j * d) div n)]"
    using a c nz by (intro conversion_trace_fit) auto
  moreover have "snd (handle_image_conversion_job L j orig) =
          (case pil_fit L img (width j, (width j * d) div n) of
             Inl e \<Rightarrow> Inl e | Inr out \<Rightarrow> Inr (out, pil_getexif L img))"
    using a c nz by (intro conversion_result_fit) auto
  ultimately show "handle_image_conversion_job L j orig =
               ([ImageOpen orig, ExifTranspose, GetExif,
                 ImageOpsFit (width j, (width j * d) div n)],
                (case pil_fit L img (width j, (width j * d) div n) of
                   Inl e \<Rightarrow> Inl e
                 | Inr out \<Rightarrow> Inr (out, pil_getexif L img)))"
    by (simp add: prod_eq_iff)
qed

theorem no_width_check_before_decode_witness:
  "handle_image_conversion_job sample_pil (conversion_job (- 4) (Some 2) (Some 1)) ''photo.jpg''
     = ([ImageOpen ''photo.jpg'', ExifTranspose, GetExif, ImageOpsFit (- 4, - 2)],
        Inr (crop_fit blank_canvas sample_image (- 4, - 2), None))
   \<and> handle_image_conversion_job sample_pil (conversion_job 0 None None) ''missing.jpg''
     = ([ImageOpen ''missing.jpg''], Inl (LibraryError ''FileNotFoundError''))"
proof -
  have w1: "width (conversion_job (- 4) (Some 2) (Some 1)) \<le> 0" by simp
  have fit: "pil_fit sample_pil sample_image (- 4, - 2)
               = Inr (crop_fit blank_canvas sample_image (- 4, - 2))"
    by (simp add: sample_pil_def spec_pil_def)
  have ex: "pil_getexif sample_pil sample_image = None"
    by (simp add: sample_pil_def spec_pil_def sample_image_def)
  from no_width_check_before_decode[OF w1, of sample_pil "''photo.jpg''"]
  have one: "handle_image_conversion_job sample_pil (conversion_job (- 4) (Some 2) (Some 1))
               ''photo.jpg''
     = ([ImageOpen ''photo.jpg'', ExifTranspose, GetExif, ImageOpsFit (- 4, - 2)],
        Inr (crop_fit blank_canvas sample_image (- 4, - 2), None))"
    using fit ex by simp
  have w2: "width (conversion_job 0 None None) \<le> 0" by simp
  have miss: "pil_open sample_pil ''missing.jpg'' = Inl (LibraryError ''FileNotFoundError'')"
    by (simp add: sample_pil_def spec_pil_def sample_files_def)
  from no_width_check_before_decode[OF w2, of sample_pil "''missing.jpg''"] miss
  have two: "handle_image_conversion_job sample_pil (conversion_job 0 None None) ''missing.jpg''
     = ([ImageOpen ''missing.jpg''], Inl (LibraryError ''FileNotFoundError''))"
    by simp
  from one two show ?thesis by simp
qed

subsection \<open>A job type that is not known\<close>

lemma handle_job_known:
  "job_type j = ''ImageConversionJob'' \<Longrightarrow>
     fst (handle_job L X j orig) = fst (handle_image_conversion_job L j orig)"
  "job_type j = ''ImageExifExtractionJob'' \<Longrightarrow>
     fst (handle_job L X j orig) = fst (get_exif X orig)"
  by (auto simp: handle_job_def split: prod.splits sum.splits)

text \<open>
  Claim C9. For every job whose \<^verbatim>\<open>job_type\<close> is neither
  \<^verbatim>\<open>"ImageConversionJob"\<close> nor \<^verbatim>\<open>"ImageExifExtractionJob"\<close>, the dispatcher
  raises nothing and calls neither pipeline: it logs the error line
  \<^verbatim>\<open>Unsupported job type ...\<close> and returns \<^verbatim>\<open>None\<close> to its caller, no image and no
  metadata.
\<close>

theorem unsupported_job_type:
  assumes "job_type j \<noteq> ''ImageConversionJob''" and "job_type j \<noteq> ''ImageExifExtractionJob''"
  shows "handle_job L X j orig = ([LogError (''Unsupported job type '' @ job_type j)], Inr None)"
  using assms by (simp add: handle_job_def)

theorem unsupported_job_type_witness:
  "handle_job sample_pil (sample_exifread [])
     \<lparr>job_type = ''VideoJob'', width = 100, aspect_ratio_numerator = None,
      aspect_ratio_denominator = None\<rparr> ''photo.jpg''
   = ([LogError ''Unsupported job type VideoJob''], Inr None)"
  using unsupported_job_type[of "\<lparr>job_type = ''VideoJob'', width = 100,
      aspect_ratio_numerator = None, aspect_ratio_denominator = None\<rparr>"
      sample_pil "sample_exifread []" "''photo.jpg''"]
  by simp

subsection \<open>The pieces of a key and one round of the loop\<close>

lemma split_space_nonempty: "split_space s \<noteq> []"
  by (induction s) (auto split: list.splits)

lemma split_space_no_space: "CHR '' '' \<notin> set s \<Longrightarrow> split_space s = [s]"
  by (induction s) auto

lemma split_space_with_space:
  "CHR '' '' \<in> set s \<Longrightarrow> \<exists>g r rs. split_space s = g # r # rs"
proof (induction s)
  case Nil
  then show ?case by simp
next
  case (Cons c cs)
  show ?case
  proof (cases "c = CHR '' ''")
    case True
    then show ?thesis
      using split_space_nonempty[of cs] by (cases "split_space cs") auto
  next
    case False
    with Cons obtain g r rs where "split_space cs = g # r # rs" by auto
    with False show ?thesis by simp
  qed
qed

lemma slot_of_None_iff: "slot_of k = None \<longleftrightarrow> CHR '' '' \<notin> set k"
proof
  assume "slot_of k = None"
  show "CHR '' '' \<notin> set k"
  proof
    assume "CHR '' '' \<in> set k"
    then obtain g r rs where "split_space k = g # r # rs"
      using split_space_with_space by blast
    with \<open>slot_of k = None\<close> show False by (simp add: slot_of_def)
  qed
next
  assume "CHR '' '' \<notin> set k"
  then show "slot_of k = None"
    by (simp add: slot_of_def split_space_no_space)
qed

lemma slot_of_split:
  "slot_of k = Some (g, t) \<longleftrightarrow> (\<exists>rest. split_space k = g # rest \<and> rest \<noteq> [] \<and> t = last rest)"
  by (auto simp: slot_of_def split: list.splits)

text \<open>The dictionary after one stored entry.\<close>

lemma entry_count_update_new:
  "k \<notin> fst ` set al \<Longrightarrow> entry_count (AList.update k new al) = entry_count al + length new"
  by (induction al) (auto simp: entry_count_def)

lemma entry_count_update_old:
  "map_of al k = Some old \<Longrightarrow>
     entry_count (AList.update k new al) + length old = entry_count al + length new"
  by (induction al) (auto simp: entry_count_def)

lemma length_update_inner:
  "length (AList.update t s sub) = (if map_of sub t = None then Suc (length sub) else length sub)"
  by (induction sub) auto

lemma exif_step_skipped:
  "k \<in> set SKIP_EXIF_TAGS \<Longrightarrow> exif_step str_of g (k, v) = Inr g"
  by (simp add: exif_step_def)

lemma exif_step_malformed:
  "k \<notin> set SKIP_EXIF_TAGS \<Longrightarrow> slot_of k = None \<Longrightarrow> exif_step str_of g (k, v) = Inl IndexError"
  using split_space_nonempty[of k]
  by (auto simp: exif_step_def slot_of_def split: list.splits if_splits)

lemma exif_step_stored:
  assumes "k \<notin> set SKIP_EXIF_TAGS" "slot_of k = Some (grp, t)"
  shows "\<exists>g'. exif_step str_of g (k, v) = Inr g'
           \<and> (\<forall>a b. lookup2 g' a b = (if a = grp \<and> b = t then Some (str_of v) else lookup2 g a b))
           \<and> entry_count g' = (if lookup2 g grp t = None then Suc (entry_count g) else entry_count g)"
proof -
  from assms(2) obtain rest where sp: "split_space k = grp # rest" "rest \<noteq> []" "t = last rest"
    by (auto simp: slot_of_split)
  show ?thesis
  proof (cases "grp \<in> fst ` set g")
    case True
    then obtain sub where sub: "map_of g grp = Some sub"
      by (metis map_of_eq_None_iff not_None_eq)
    let ?g' = "AList.update grp (AList.update t (str_of v) sub) g"
    have st: "exif_step str_of g (k, v) = Inr ?g'"
      using assms(1) sp True sub by (simp add: exif_step_def)
    have lk: "\<forall>a b. lookup2 ?g' a b = (if a = grp \<and> b = t then Some (str_of v) else lookup2 g a b)"
      using sub by (auto simp: lookup2_def update_conv')
    have "entry_count ?g' + length sub = entry_count g + length (AList.update t (str_of v) sub)"
      using sub by (rule entry_count_update_old)
    then have ec: "entry_count ?g' = (if lookup2 g grp t = None then Suc (entry_count g) else entry_count g)"
      using sub by (auto simp: length_update_inner lookup2_def)
    from st lk ec show ?thesis by blast
  next
    case False
    then have none: "map_of g grp = None"
      by (simp add: map_of_eq_None_iff)
    let ?g1 = "AList.update grp [] g"
    let ?g' = "AList.update grp (AList.update t (str_of v) []) ?g1"
    have m1: "map_of ?g1 grp = Some []"
      by (simp add: update_conv')
    have st: "exif_step str_of g (k, v) = Inr ?g'"
      using assms(1) sp False m1 by (simp add: exif_step_def)
    have lk: "\<forall>a b. lookup2 ?g' a b = (if a = grp \<and> b = t then Some (str_of v) else lookup2 g a b)"
      using none by (auto simp: lookup2_def update_conv')
    have "entry_count ?g' + length ([]::(string \<times> string) list)
            = entry_count ?g1 + length (AList.update t (str_of v) [])"
      using m1 by (rule entry_count_update_old)
    moreover have "entry_count ?g1 = entry_count g"
      using False by (simp add: entry_count_update_new)
    ultimately have ec: "entry_count ?g' = (if lookup2 g grp t = None then Suc (entry_count g) else entry_count g)"
      using none by (simp add: lookup2_def)
    from st lk ec show ?thesis by blast
  qed
qed

subsection \<open>The loop over the tags\<close>

lemma exif_loop_append:
  "exif_loop str_of (xs @ ys) g =
     (case exif_loop str_of xs g of Inl e \<Rightarrow> Inl e | Inr g' \<Rightarrow> exif_loop str_of ys g')"
  by (induction xs arbitrary: g) (auto split: sum.splits)

lemma exif_step_cases:
  obtains (skipped) "fst kv \<in> set SKIP_EXIF_TAGS" "exif_step str_of g kv = Inr g"
  | (malformed) "fst kv \<notin> set SKIP_EXIF_TAGS" "slot_of (fst kv) = None"
      "exif_step str_of g kv = Inl IndexError"
  | (stored) grp t g' where "fst kv \<notin> set SKIP_EXIF_TAGS" "slot_of (fst kv) = Some (grp, t)"
      "exif_step str_of g kv = Inr g'"
      "\<forall>a b. lookup2 g' a b = (if a = grp \<and> b = t then Some (str_of (snd kv)) else lookup2 g a b)"
      "entry_count g' = (if lookup2 g grp t = None then Suc (entry_count g) else entry_count g)"
proof (cases "fst kv \<in> set SKIP_EXIF_TAGS")
  case True
  then show ?thesis
    using skipped exif_step_skipped[of "fst kv" str_of g "snd kv"] by simp
next
  case False
  show ?thesis
  proof (cases "slot_of (fst kv)")
    case None
    then show ?thesis
      using False malformed exif_step_malformed[of "fst kv" str_of g "snd kv"] by simp
  next
    case (Some p)
    obtain grp t where p: "p = (grp, t)" by (cases p)
    from exif_step_stored[OF False Some[unfolded p], of str_of g "snd kv"]
    show ?thesis using stored[of grp t] False Some p by auto
  qed
qed

lemma exif_loop_returns:
  assumes "\<forall>kv \<in> set tags. fst kv \<in> set SKIP_EXIF_TAGS \<or> CHR '' '' \<in> set (fst kv)"
  shows "\<exists>res. exif_loop str_of tags g = Inr res"
  using assms
proof (induction tags arbitrary: g)
  case Nil
  then show ?case by simp
next
  case (Cons kv tags)
  show ?case
  proof (cases rule: exif_step_cases[of kv str_of g])
    case skipped
    then show ?thesis using Cons by simp
  next
    case malformed
    then show ?thesis using Cons.prems by (auto simp: slot_of_None_iff)
  next
    case (stored grp t g')
    then show ?thesis using Cons by simp
  qed
qed

lemma exif_loop_raises:
  assumes "(k, v) \<in> set tags" "k \<notin> set SKIP_EXIF_TAGS" "CHR '' '' \<notin> set k"
  shows "exif_loop str_of tags g = Inl IndexError"
  using assms(1)
proof (induction tags arbitrary: g)
  case Nil
  then show ?case by simp
next
  case (Cons kv tags)
  show ?case
  proof (cases rule: exif_step_cases[of kv str_of g])
    case skipped
    then have "kv \<noteq> (k, v)" using assms(2) by auto
    then show ?thesis using Cons skipped by simp
  next
    case malformed
    then show ?thesis by simp
  next
    case (stored grp t g')
    then have "kv \<noteq> (k, v)" using assms(3) by (auto simp: slot_of_None_iff[symmetric])
    then show ?thesis using Cons stored by simp
  qed
qed

lemma exif_loop_frame:
  assumes "exif_loop str_of tags g = Inr res"
    and "\<forall>kv \<in> set tags. fst kv \<in> set SKIP_EXIF_TAGS \<or> slot_of (fst kv) \<noteq> Some (a, b)"
  shows "lookup2 res a b = lookup2 g a b"
  using assms
proof (induction tags arbitrary: g)
  case Nil
  then show ?case by simp
next
  case (Cons kv tags)
  show ?case
  proof (cases rule: exif_step_cases[of kv str_of g])
    case skipped
    then show ?thesis using Cons by simp
  next
    case malformed
    then show ?thesis using Cons.prems by simp
  next
    case (stored grp t g')
    then have "lookup2 res a b = lookup2 g' a b"
      using Cons by simp
    moreover have "lookup2 g' a b = lookup2 g a b"
      using stored Cons.prems(2) by auto
    ultimately show ?thesis by simp
  qed
qed

lemma exif_loop_provenance:
  assumes "exif_loop str_of tags g = Inr res" "lookup2 res a b = Some s"
  shows "lookup2 g a b = Some s
       \<or> (\<exists>kv \<in> set tags. fst kv \<notin> set SKIP_EXIF_TAGS \<and> slot_of (fst kv) = Some (a, b)
             \<and> s = str_of (snd kv))"
  using assms
proof (induction tags arbitrary: g)
  case Nil
  then show ?case by simp
next
  case (Cons kv tags)
  show ?case
  proof (cases rule: exif_step_cases[of kv str_of g])
    case skipped
    then show ?thesis using Cons by auto
  next
    case malformed
    then show ?thesis using Cons.prems by simp
  next
    case (stored grp t g')
    then have "exif_loop str_of tags g' = Inr res" using Cons.prems by simp
    from Cons.IH[OF this Cons.prems(2)]
    show ?thesis
    proof
      assume "lookup2 g' a b = Some s"
      then show ?thesis using stored by (auto split: if_splits)
    next
      assume "\<exists>kv\<in>set tags. fst kv \<notin> set SKIP_EXIF_TAGS \<and> slot_of (fst kv) = Some (a, b)
                \<and> s = str_of (snd kv)"
      then show ?thesis by auto
    qed
  qed
qed

lemma exif_loop_keeps:
  assumes "exif_loop str_of tags g = Inr res" "lookup2 g a b \<noteq> None"
  shows "lookup2 res a b \<noteq> None"
  using assms
proof (induction tags arbitrary: g)
  case Nil
  then show ?case by simp
next
  case (Cons kv tags)
  show ?case
  proof (cases rule: exif_step_cases[of kv str_of g])
    case skipped
    then show ?thesis using Cons by simp
  next
    case malformed
    then show ?thesis using Cons.prems by simp
  next
    case (stored grp t g')
    then have "lookup2 g' a b \<noteq> None" using Cons.prems(2) by auto
    then show ?thesis using Cons stored by simp
  qed
qed

lemma exif_loop_count:
  assumes "exif_loop str_of tags g = Inr res"
  shows "entry_count res \<le> entry_count g + length (not_skipped tags)"
  using assms
proof (induction tags arbitrary: g)
  case Nil
  then show ?case by (simp add: not_skipped_def)
next
  case (Cons kv tags)
  show ?case
  proof (cases rule: exif_step_cases[of kv str_of g])
    case skipped
    then show ?thesis using Cons by (simp add: not_skipped_def)
  next
    case malformed
    then show ?thesis using Cons.prems by simp
  next
    case (stored grp t g')
    have "exif_loop str_of tags g' = Inr res"
      using Cons.prems stored(3) by simp
    then have "entry_count res \<le> entry_count g' + length (not_skipped tags)"
      by (rule Cons.IH)
    moreover have "entry_count g' \<le> Suc (entry_count g)"
      using stored by simp
    moreover have "length (not_skipped (kv # tags)) = Suc (length (not_skipped tags))"
      using stored(1) by (simp add: not_skipped_def)
    ultimately show ?thesis by linarith
  qed
qed

lemma exif_loop_without_skipped:
  assumes "k \<in> set SKIP_EXIF_TAGS"
  shows "exif_loop str_of tags g = exif_loop str_of (filter (\<lambda>kv. fst kv \<noteq> k) tags) g"
proof (induction tags arbitrary: g)
  case Nil
  then show ?case by simp
next
  case (Cons kv tags)
  show ?case
  proof (cases "fst kv = k")
    case True
    then have "exif_step str_of g kv = Inr g"
      using assms True exif_step_skipped[of k str_of g "snd kv"] by (cases kv) simp
    then show ?thesis using True Cons by simp
  next
    case False
    then show ?thesis using Cons by (simp split: sum.splits)
  qed
qed

lemma get_exif_result:
  "process_file X fname = Inr tags \<Longrightarrow>
     get_exif X fname = ([ProcessFile fname], exif_loop (ifd_str X) tags [])"
  by (simp add: get_exif_def)

lemma get_exif_snd:
  "process_file X fname = Inr tags \<Longrightarrow> snd (get_exif X fname) = exif_loop (ifd_str X) tags []"
  by (simp add: get_exif_def)

lemma lookup2_empty [simp]: "lookup2 [] a b = None"
  by (simp add: lookup2_def)

lemma entry_count_empty [simp]: "entry_count [] = 0"
  by (simp add: entry_count_def)

lemma sample_exifread_simps [simp]:
  "process_file (sample_exifread tags) p = Inr tags"
  "ifd_str (sample_exifread tags) = str_int"
  by (simp_all add: sample_exifread_def)

lemma str_int_samples [simp]:
  "str_int 1 = ''1''" "str_int 2 = ''2''" "str_int 3 = ''3''" "str_int 266 = ''266''"
  by (simp_all add: str_int_def)

subsection \<open>A key that has no second piece\<close>

text \<open>
  Claim C4, as the spec states it: a malformed key (one token only, say) is logged and
  skipped, and the grouped output of the remaining keys is still produced. Here the key
  \<^verbatim>\<open>Bogus\<close> stands between two well-formed keys: \<^verbatim>\<open>key[-1]\<close> raises IndexError
  on it, and the method returns no dictionary at all.
\<close>

theorem single_token_key_loses_all:
  "get_exif (sample_exifread [(''Image Make'', 1), (''Bogus'', 2), (''GPS GPSAltitude'', 3)])
     ''photo.jpg'' = ([ProcessFile ''photo.jpg''], Inl IndexError)"
proof -
  have "exif_loop str_int [(''Image Make'', 1), (''Bogus'', 2), (''GPS GPSAltitude'', 3)] []
          = Inl IndexError"
    by (rule exif_loop_raises[where k = "''Bogus''" and v = 2])
       (simp_all add: SKIP_EXIF_TAGS_def)
  then show ?thesis by (simp add: get_exif_result)
qed

text \<open>
  Claim C4, amended. Whenever the tags read from the file hold a key that is not in the
  skip list and has no space in it, \<^verbatim>\<open>get_exif\<close> raises IndexError: the extraction is
  aborted, nothing is skipped and no grouped output is returned.
\<close>

theorem malformed_key_aborts:
  assumes "process_file X fname = Inr tags"
    and "(k, v) \<in> set tags" and "k \<notin> set SKIP_EXIF_TAGS" and "CHR '' '' \<notin> set k"
  shows "get_exif X fname = ([ProcessFile fname], Inl IndexError)"
  using assms by (simp add: get_exif_result exif_loop_raises)

theorem malformed_key_aborts_witness:
  "get_exif (sample_exifread [(''Image Make'', 1), (''Orientation'', 3)]) ''photo.jpg''
     = ([ProcessFile ''photo.jpg''], Inl IndexError)"
  using malformed_key_aborts[of "sample_exifread [(''Image Make'', 1), (''Orientation'', 3)]"
          "''photo.jpg''" "[(''Image Make'', 1), (''Orientation'', 3)]" "''Orientation''" 3]
  by (simp add: SKIP_EXIF_TAGS_def)

subsection \<open>The skip list\<close>

text \<open>
  Claim C5, as the spec states it: a key of the configured skip list never appears, under
  any group, in the output. The list that \<^verbatim>\<open>get_exif\<close> consults is the module constant
  \<^verbatim>\<open>SKIP_EXIF_TAGS\<close>, compared with the whole flat key. \<^verbatim>\<open>Filename\<close> is in it, yet
  the flat key \<^verbatim>\<open>"Image Filename"\<close> is a different string, is not skipped, and puts
  \<^verbatim>\<open>Filename\<close> under the group \<^verbatim>\<open>Image\<close>:
  \<^verbatim>\<open>result["Image"]["Filename"] == "1"\<close>.
\<close>

theorem skip_list_name_under_group:
  "''Filename'' \<in> set SKIP_EXIF_TAGS
   \<and> get_exif (sample_exifread [(''Image Filename'', 1)]) ''photo.jpg''
       = ([ProcessFile ''photo.jpg''], Inr [(''Image'', [(''Filename'', ''1'')])])
   \<and> lookup2 [(''Image'', [(''Filename'', ''1'')])] ''Image'' ''Filename'' = Some ''1''"
proof -
  have "exif_loop str_int [(''Image Filename'', 1)] [] = Inr [(''Image'', [(''Filename'', ''1'')])]"
    by (simp add: exif_step_def SKIP_EXIF_TAGS_def)
  then show ?thesis
    by (simp add: get_exif_result SKIP_EXIF_TAGS_def lookup2_def)
qed

text \<open>
  Claim C5, amended. The skip list is the module constant \<^verbatim>\<open>SKIP_EXIF_TAGS\<close>, the
  three keys \<^verbatim>\<open>JPEGThumbnail\<close>, \<^verbatim>\<open>TIFFThumbnail\<close> and \<^verbatim>\<open>Filename\<close>. For every
  key \<open>k\<close> in it, the entry whose flat key is exactly \<open>k\<close> is dropped before grouping:
  \<open>k\<close> has one piece only, so splitting it would raise, but its round of the loop ends
  before the split and leaves the dictionary as it was; and \<^verbatim>\<open>get_exif\<close> returns, or
  raises, exactly what grouping the tags without that entry does.
\<close>

theorem skipped_keys_are_dropped:
  assumes "k \<in> set SKIP_EXIF_TAGS"
  shows "(k = ''JPEGThumbnail'' \<or> k = ''TIFFThumbnail'' \<or> k = ''Filename'')
       \<and> slot_of k = None
       \<and> exif_step str_of g (k, v :: 'v) = Inr g
       \<and> (\<forall>(X :: 'v exifread) fname tags. process_file X fname = Inr tags \<longrightarrow>
            get_exif X fname
              = ([ProcessFile fname],
                 exif_loop (ifd_str X) (filter (\<lambda>kv. fst kv \<noteq> k) tags) []))"
proof (intro conjI allI impI)
  show names: "k = ''JPEGThumbnail'' \<or> k = ''TIFFThumbnail'' \<or> k = ''Filename''"
    using assms by (simp add: SKIP_EXIF_TAGS_def)
  then have "CHR '' '' \<notin> set k"
    by auto
  then show "slot_of k = None"
    by (simp add: slot_of_None_iff)
  show "exif_step str_of g (k, v) = Inr g"
    using assms by (rule exif_step_skipped)
next
  fix X :: "'v exifread" and fname tags
  assume "process_file X fname = Inr tags"
  then show "get_exif X fname
              = ([ProcessFile fname],
                 exif_loop (ifd_str X) (filter (\<lambda>kv. fst kv \<noteq> k) tags) [])"
    using exif_loop_without_skipped[OF assms, of "ifd_str X" tags "[]"]
    by (simp add: get_exif_result)
qed

theorem skipped_keys_are_dropped_witness:
  "slot_of ''Filename'' = None
   \<and> exif_step str_int [(''Image'', [(''Make'', ''2'')])] (''Filename'', 3)
       = Inr [(''Image'', [(''Make'', ''2'')])]
   \<and> get_exif (sample_exifread [(''Filename'', 3), (''Image Make'', 2), (''JPEGThumbnail'', 1)])
        ''photo.jpg''
       = ([ProcessFile ''photo.jpg''], Inr [(''Image'', [(''Make'', ''2'')])])"
proof -
  have k: "''Filename'' \<in> set SKIP_EXIF_TAGS"
    by (simp add: SKIP_EXIF_TAGS_def)
  have "exif_loop str_int [(''Image Make'', 2), (''JPEGThumbnail'', 1)] []
          = Inr [(''Image'', [(''Make'', ''2'')])]"
    by (simp add: exif_step_def SKIP_EXIF_TAGS_def)
  with skipped_keys_are_dropped[OF k, of str_int "[(''Image'', [(''Make'', ''2'')])]" 3]
  show ?thesis by simp
qed

subsection \<open>The last key stored at a place\<close>

lemma slot_of_contains_space: "slot_of k = Some p \<Longrightarrow> CHR '' '' \<in> set k"
  using slot_of_None_iff[of k] by auto

lemma exif_loop_stored_last:
  assumes ok: "\<forall>kv \<in> set (pre @ post). fst kv \<in> set SKIP_EXIF_TAGS \<or> CHR '' '' \<in> set (fst kv)"
    and k: "k \<notin> set SKIP_EXIF_TAGS" "slot_of k = Some (grp, t)"
    and later: "\<forall>kv \<in> set post. fst kv \<in> set SKIP_EXIF_TAGS \<or> slot_of (fst kv) \<noteq> Some (grp, t)"
  shows "\<exists>g1 g2 res. exif_loop str_of pre g = Inr g1
           \<and> exif_step str_of g1 (k, v) = Inr g2
           \<and> exif_loop str_of post g2 = Inr res
           \<and> exif_loop str_of (pre @ (k, v) # post) g = Inr res
           \<and> lookup2 res grp t = Some (str_of v)
           \<and> entry_count g2 = (if lookup2 g1 grp t = None then Suc (entry_count g1)
                                else entry_count g1)"
proof -
  from ok obtain g1 where g1: "exif_loop str_of pre g = Inr g1"
    using exif_loop_returns[of pre str_of g] by auto
  from exif_step_stored[OF k, of str_of g1 v] obtain g2 where
    g2: "exif_step str_of g1 (k, v) = Inr g2"
    and lk: "\<forall>a b. lookup2 g2 a b = (if a = grp \<and> b = t then Some (str_of v) else lookup2 g1 a b)"
    and ec: "entry_count g2 = (if lookup2 g1 grp t = None then Suc (entry_count g1)
                                else entry_count g1)"
    by blast
  from ok obtain res where res: "exif_loop str_of post g2 = Inr res"
    using exif_loop_returns[of post str_of g2] by auto
  have whole: "exif_loop str_of (pre @ (k, v) # post) g = Inr res"
    using g1 g2 res by (simp add: exif_loop_append)
  have "lookup2 res grp t = lookup2 g2 grp t"
    using res later by (rule exif_loop_frame)
  then have "lookup2 res grp t = Some (str_of v)"
    using lk by simp
  with g1 g2 res whole ec show ?thesis by blast
qed

subsection \<open>Where a key is stored\<close>

text \<open>
  Claim C6, as the spec states it: a key that is not skipped and has two or more
  whitespace-separated tokens is stored under its first token as group and its last token
  as tag. The key \<^verbatim>\<open>"Image ExifOffset "\<close>, with a space at its end, has the two
  whitespace-separated tokens \<^verbatim>\<open>Image\<close> and \<^verbatim>\<open>ExifOffset\<close>; the code cuts it at
  every single space, so its last piece is the empty string, and the value is stored at
  \<^verbatim>\<open>result["Image"][""]\<close>, not at \<^verbatim>\<open>result["Image"]["ExifOffset"]\<close>.
\<close>

theorem trailing_space_key:
  "spec_whitespace_tokens ''Image ExifOffset '' = [''Image'', ''ExifOffset'']
   \<and> get_exif (sample_exifread [(''Image ExifOffset '', 266)]) ''photo.jpg''
       = ([ProcessFile ''photo.jpg''], Inr [(''Image'', [('''', ''266'')])])"
proof -
  have "exif_loop str_int [(''Image ExifOffset '', 266)] [] = Inr [(''Image'', [('''', ''266'')])]"
    by (simp add: exif_step_def SKIP_EXIF_TAGS_def)
  then show ?thesis
    by (simp add: get_exif_result spec_whitespace_tokens_def is_whitespace_def)
qed

text \<open>
  Claim C6, amended. The key is cut at each single space character
  (\<^verbatim>\<open>split(" ")\<close>, empty pieces kept, no other whitespace a separator). For every key
  that is not skipped and has two pieces or more, with first piece \<open>grp\<close> and further
  pieces \<open>rest\<close>: its round of the loop stores the stringified value at
  \<^verbatim>\<open>result[grp][last rest]\<close>; and when no other key aborts the extraction and no
  later key is stored at the same place, the dictionary that \<^verbatim>\<open>get_exif\<close> returns
  holds it there. The entry \<^verbatim>\<open>"Image ExifOffset"\<close> with value 266 gives
  \<^verbatim>\<open>result["Image"]["ExifOffset"] == "266"\<close>.
\<close>

theorem key_is_grouped:
  assumes "k \<notin> set SKIP_EXIF_TAGS" and "split_space k = grp # rest" and "rest \<noteq> []"
  shows "(\<exists>g'. exif_step str_of g (k, v :: 'v) = Inr g'
            \<and> lookup2 g' grp (last rest) = Some (str_of v))
       \<and> (\<forall>(X :: 'v exifread) fname pre post.
            process_file X fname = Inr (pre @ (k, v) # post)
            \<and> (\<forall>kv \<in> set (pre @ post).
                  fst kv \<in> set SKIP_EXIF_TAGS \<or> CHR '' '' \<in> set (fst kv))
            \<and> (\<forall>kv \<in> set post.
                  fst kv \<in> set SKIP_EXIF_TAGS \<or> slot_of (fst kv) \<noteq> Some (grp, last rest))
            \<longrightarrow>
            (\<exists>res. get_exif X fname = ([ProcessFile fname], Inr res)
               \<and> lookup2 res grp (last rest) = Some (ifd_str X v)))
       \<and> get_exif (sample_exifread [(''Image ExifOffset'', 266)]) fname'
           = ([ProcessFile fname'], Inr [(''Image'', [(''ExifOffset'', ''266'')])])"
proof (intro conjI allI impI)
  have s: "slot_of k = Some (grp, last rest)"
    using assms(2,3) by (simp add: slot_of_split)
  show "\<exists>g'. exif_step str_of g (k, v) = Inr g'
            \<and> lookup2 g' grp (last rest) = Some (str_of v)"
    using exif_step_stored[OF assms(1) s, of str_of g v] by auto
  fix X :: "'v exifread" and fname pre post
  assume a: "process_file X fname = Inr (pre @ (k, v) # post)
            \<and> (\<forall>kv \<in> set (pre @ post).
                  fst kv \<in> set SKIP_EXIF_TAGS \<or> CHR '' '' \<in> set (fst kv))
            \<and> (\<forall>kv \<in> set post.
                  fst kv \<in> set SKIP_EXIF_TAGS \<or> slot_of (fst kv) \<noteq> Some (grp, last rest))"
  then have ok: "\<forall>kv \<in> set (pre @ post).
                  fst kv \<in> set SKIP_EXIF_TAGS \<or> CHR '' '' \<in> set (fst kv)"
    and later: "\<forall>kv \<in> set post.
                  fst kv \<in> set SKIP_EXIF_TAGS \<or> slot_of (fst kv) \<noteq> Some (grp, last rest)"
    by blast+
  from exif_loop_stored_last[OF ok assms(1) s later, of "ifd_str X" "[]" v]
  obtain res where "exif_loop (ifd_str X) (pre @ (k, v) # post) [] = Inr res"
    "lookup2 res grp (last rest) = Some (ifd_str X v)"
    by blast
  then show "\<exists>res. get_exif X fname = ([ProcessFile fname], Inr res)
            \<and> lookup2 res grp (last rest) = Some (ifd_str X v)"
    using a by (simp add: get_exif_result)
next
  have "exif_loop str_int [(''Image ExifOffset'', 266)] []
          = Inr [(''Image'', [(''ExifOffset'', ''266'')])]"
    by (simp add: exif_step_def SKIP_EXIF_TAGS_def)
  then show "get_exif (sample_exifread [(''Image ExifOffset'', 266)]) fname'
           = ([ProcessFile fname'], Inr [(''Image'', [(''ExifOffset'', ''266'')])])"
    by (simp add: get_exif_result)
qed

theorem key_is_grouped_witness:
  "(\<exists>g'. exif_step str_int [(''GPS'', [(''GPSAltitude'', ''0'')])] (''GPS GPSInfo GPSAltitude'', 2)
             = Inr g'
          \<and> lookup2 g' ''GPS'' ''GPSAltitude'' = Some ''2'')
   \<and> (\<exists>res. get_exif (sample_exifread
             [(''Image Make'', 1), (''GPS GPSInfo GPSAltitude'', 2), (''Image Model'', 3)])
           ''photo.jpg'' = ([ProcessFile ''photo.jpg''], Inr res)
         \<and> lookup2 res ''GPS'' ''GPSAltitude'' = Some ''2'')"
proof -
  have k: "''GPS GPSInfo GPSAltitude'' \<notin> set SKIP_EXIF_TAGS"
    by (simp add: SKIP_EXIF_TAGS_def)
  have sp: "split_space ''GPS GPSInfo GPSAltitude'' = ''GPS'' # [''GPSInfo'', ''GPSAltitude'']"
    by simp
  have ne: "[''GPSInfo'', ''GPSAltitude''] \<noteq> []"
    by simp
  have sl: "slot_of ''Image Model'' = Some (''Image'', ''Model'')"
    by (simp add: slot_of_def)
  note inst = key_is_grouped[OF k sp ne, of str_int "[(''GPS'', [(''GPSAltitude'', ''0'')])]" 2]
  from inst have one: "\<exists>g'. exif_step str_int [(''GPS'', [(''GPSAltitude'', ''0'')])]
             (''GPS GPSInfo GPSAltitude'', 2) = Inr g'
          \<and> lookup2 g' ''GPS'' ''GPSAltitude'' = Some ''2''"
    by simp
  from inst have "\<forall>(X :: int exifread) fname pre post.
            process_file X fname = Inr (pre @ (''GPS GPSInfo GPSAltitude'', 2) # post)
            \<and> (\<forall>kv \<in> set (pre @ post).
                  fst kv \<in> set SKIP_EXIF_TAGS \<or> CHR '' '' \<in> set (fst kv))
            \<and> (\<forall>kv \<in> set post.
                  fst kv \<in> set SKIP_EXIF_TAGS \<or> slot_of (fst kv) \<noteq> Some (''GPS'', ''GPSAltitude''))
            \<longrightarrow>
            (\<exists>res. get_exif X fname = ([ProcessFile fname], Inr res)
               \<and> lookup2 res ''GPS'' ''GPSAltitude'' = Some (ifd_str X 2))"
    by simp
  from this[rule_format, of "sample_exifread
             [(''Image Make'', 1), (''GPS GPSInfo GPSAltitude'', 2), (''Image Model'', 3)]"
          "''photo.jpg''" "[(''Image Make'', 1)]" "[(''Image Model'', 3)]"]
  have two: "\<exists>res. get_exif (sample_exifread
             [(''Image Make'', 1), (''GPS GPSInfo GPSAltitude'', 2), (''Image Model'', 3)])
           ''photo.jpg'' = ([ProcessFile ''photo.jpg''], Inr res)
         \<and> lookup2 res ''GPS'' ''GPSAltitude'' = Some ''2''"
    using sl by (simp add: SKIP_EXIF_TAGS_def)
  from one two show ?thesis by simp
qed

subsection \<open>Two keys for one place\<close>

text \<open>
  Claim C10. Two distinct keys that are not skipped and have the same first piece \<open>grp\<close>
  and the same last piece \<open>t\<close> (as \<^verbatim>\<open>"Image X"\<close> and \<^verbatim>\<open>"Image A X"\<close>) are stored at
  the one place \<^verbatim>\<open>result[grp][t]\<close>: with no later key for that place, the output holds
  the value of the later of the two, nothing is raised or logged, and the output has
  strictly fewer entries than there are keys that were not skipped.
\<close>

theorem colliding_keys_overwrite:
  assumes "process_file X fname = Inr (xs @ (k1, v1) # ys @ (k2, v2) # zs)"
    and "k1 \<noteq> k2"
    and "k1 \<notin> set SKIP_EXIF_TAGS" and "k2 \<notin> set SKIP_EXIF_TAGS"
    and "slot_of k1 = Some (grp, t)" and "slot_of k2 = Some (grp, t)"
    and "\<forall>kv \<in> set (xs @ ys @ zs). fst kv \<in> set SKIP_EXIF_TAGS \<or> CHR '' '' \<in> set (fst kv)"
    and "\<forall>kv \<in> set zs. fst kv \<in> set SKIP_EXIF_TAGS \<or> slot_of (fst kv) \<noteq> Some (grp, t)"
  shows "(\<exists>res. get_exif X fname = ([ProcessFile fname], Inr res)
            \<and> lookup2 res grp t = Some (ifd_str X v2)
            \<and> entry_count res < length (not_skipped (xs @ (k1, v1) # ys @ (k2, v2) # zs)))
       \<and> slot_of ''Image X'' = Some (''Image'', ''X'')
       \<and> slot_of ''Image A X'' = Some (''Image'', ''X'')
       \<and> get_exif (sample_exifread [(''Image X'', 1), (''Image A X'', 2)]) fname
           = ([ProcessFile fname], Inr [(''Image'', [(''X'', ''2'')])])"
proof (intro conjI)
  let ?pre = "xs @ (k1, v1) # ys"
  have ok: "\<forall>kv \<in> set (?pre @ zs). fst kv \<in> set SKIP_EXIF_TAGS \<or> CHR '' '' \<in> set (fst kv)"
    using assms(7) slot_of_contains_space[OF assms(5)] by auto
  from exif_loop_stored_last[OF ok assms(4) assms(6) assms(8), of "ifd_str X" "[]" v2]
  obtain g1 g2 res where
    g1: "exif_loop (ifd_str X) ?pre [] = Inr g1"
    and g2: "exif_step (ifd_str X) g1 (k2, v2) = Inr g2"
    and res: "exif_loop (ifd_str X) zs g2 = Inr res"
    and whole: "exif_loop (ifd_str X) (?pre @ (k2, v2) # zs) [] = Inr res"
    and lk: "lookup2 res grp t = Some (ifd_str X v2)"
    and ec: "entry_count g2 = (if lookup2 g1 grp t = None then Suc (entry_count g1)
                                else entry_count g1)"
    by blast
  have ok1: "\<forall>kv \<in> set (xs @ ys). fst kv \<in> set SKIP_EXIF_TAGS \<or> CHR '' '' \<in> set (fst kv)"
    using assms(7) by auto
  have present: "lookup2 g1 grp t \<noteq> None"
  proof -
    from ok1 obtain h1 where h1: "exif_loop (ifd_str X) xs [] = Inr h1"
      using exif_loop_returns[of xs "ifd_str X" "[]"] by auto
    from exif_step_stored[OF assms(3) assms(5), of "ifd_str X" h1 v1] obtain h2 where
      h2: "exif_step (ifd_str X) h1 (k1, v1) = Inr h2" and "lookup2 h2 grp t = Some (ifd_str X v1)"
      by auto
    moreover have "exif_loop (ifd_str X) ys h2 = Inr g1"
      using g1 h1 h2 by (simp add: exif_loop_append)
    ultimately show ?thesis
      using exif_loop_keeps[of "ifd_str X" ys h2 g1 grp t] by simp
  qed
  have "entry_count g1 \<le> entry_count [] + length (not_skipped ?pre)"
    using g1 by (rule exif_loop_count)
  moreover have "entry_count g2 = entry_count g1"
    using ec present by simp
  moreover have "entry_count res \<le> entry_count g2 + length (not_skipped zs)"
    using res by (rule exif_loop_count)
  moreover have "length (not_skipped (?pre @ (k2, v2) # zs))
                   = Suc (length (not_skipped ?pre) + length (not_skipped zs))"
    using assms(4) by (simp add: not_skipped_def)
  ultimately have "entry_count res < length (not_skipped (?pre @ (k2, v2) # zs))"
    by simp
  then show "\<exists>res. get_exif X fname = ([ProcessFile fname], Inr res)
            \<and> lookup2 res grp t = Some (ifd_str X v2)
            \<and> entry_count res < length (not_skipped (xs @ (k1, v1) # ys @ (k2, v2) # zs))"
    using whole lk assms(1) by (simp add: get_exif_result)
next
  show "slot_of ''Image X'' = Some (''Image'', ''X'')"
    by (simp add: slot_of_def)
next
  show "slot_of ''Image A X'' = Some (''Image'', ''X'')"
    by (simp add: slot_of_def)
next
  have "exif_loop str_int [(''Image X'', 1), (''Image A X'', 2)] []
          = Inr [(''Image'', [(''X'', ''2'')])]"
    by (simp add: exif_step_def SKIP_EXIF_TAGS_def)
  then show "get_exif (sample_exifread [(''Image X'', 1), (''Image A X'', 2)]) fname
           = ([ProcessFile fname], Inr [(''Image'', [(''X'', ''2'')])])"
    by (simp add: get_exif_result)
qed

theorem colliding_keys_overwrite_witness:
  "\<exists>res. get_exif (sample_exifread
             [(''GPS GPSAltitude'', 1), (''Image X'', 2), (''Image Make'', 3), (''Image A X'', 266)])
           ''photo.jpg'' = ([ProcessFile ''photo.jpg''], Inr res)
         \<and> lookup2 res ''Image'' ''X'' = Some ''266''
         \<and> entry_count res < 4"
proof -
  have s1: "slot_of ''Image X'' = Some (''Image'', ''X'')"
    and s2: "slot_of ''Image A X'' = Some (''Image'', ''X'')"
    by (simp_all add: slot_of_def)
  from colliding_keys_overwrite[of "sample_exifread
             [(''GPS GPSAltitude'', 1), (''Image X'', 2), (''Image Make'', 3), (''Image A X'', 266)]"
          "''photo.jpg''" "[(''GPS GPSAltitude'', 1)]" "''Image X''" 2 "[(''Image Make'', 3)]"
          "''Image A X''" 266 "[]" "''Image''" "''X''", OF _ _ _ _ s1 s2]
  have "\<exists>res. get_exif (sample_exifread
             [(''GPS GPSAltitude'', 1), (''Image X'', 2), (''Image Make'', 3), (''Image A X'', 266)])
           ''photo.jpg'' = ([ProcessFile ''photo.jpg''], Inr res)
         \<and> lookup2 res ''Image'' ''X'' = Some ''266''
         \<and> entry_count res < length (not_skipped
             [(''GPS GPSAltitude'', 1::int), (''Image X'', 2), (''Image Make'', 3),
              (''Image A X'', 266)])"
    by (simp add: SKIP_EXIF_TAGS_def)
  moreover have "length (not_skipped
             [(''GPS GPSAltitude'', 1::int), (''Image X'', 2), (''Image Make'', 3),
              (''Image A X'', 266)]) = 4"
    by (simp add: SKIP_EXIF_TAGS_def not_skipped_def)
  ultimately show ?thesis by simp
qed

section \<open>Properties of the imaging operations as the spec describes them\<close>

subsection \<open>Normalising keeps a buffer well formed\<close>

lemma transpose_grid:
  assumes "rows \<noteq> []" "list_all (\<lambda>r. length r = n) rows"
  shows "length (transpose rows) = n \<and> list_all (\<lambda>r. length r = length rows) (transpose rows)"
proof -
  have rect: "\<And>i. i < length rows \<Longrightarrow> length (rows ! i) = n"
    using assms(2) by (simp add: list_all_length)
  have "transpose rows = map (\<lambda>i. map (\<lambda>j. rows ! j ! i) [0..<length rows]) [0..<n]"
    using assms(1) rect by (intro transpose_rectangle) auto
  then show ?thesis by (simp add: list_all_iff)
qed

lemma well_formed_upright:
  assumes "well_formed x"
  shows "well_formed (x\<lparr>img_size := upright_size ori (img_size x),
            img_pixels := upright ori (img_pixels x)\<rparr>)"
proof -
  obtain w h where sz: "img_size x = (w, h)" by (cases "img_size x")
  from assms sz have pos: "0 < w" "0 < h" and len: "int (length (img_pixels x)) = h"
    and rows: "list_all (\<lambda>r. int (length r) = w) (img_pixels x)"
    by (simp_all add: well_formed_def)
  have ne: "img_pixels x \<noteq> []" using len pos by auto
  have "list_all (\<lambda>r. length r = nat w) (img_pixels x)"
    using rows by (auto simp: list_all_iff)
  from transpose_grid[OF ne this]
  have t: "int (length (transpose (img_pixels x))) = w"
    "list_all (\<lambda>r. int (length r) = h) (transpose (img_pixels x))"
    using pos len by (auto simp: list_all_iff)
  show ?thesis
    using sz pos len rows t
    by (cases ori) (auto simp: well_formed_def list_all_iff)
qed

lemma well_formed_tag [simp]: "well_formed (x\<lparr>img_orientation := t\<rparr>) = well_formed x"
  by (simp add: well_formed_def)

lemma well_formed_normalized:
  assumes "well_formed x"
  shows "well_formed (OrientationNormalizer x)"
proof (cases "img_orientation x")
  case None
  then show ?thesis using assms by (simp add: OrientationNormalizer_def)
next
  case (Some ori)
  show ?thesis
  proof (cases "ori = Normal")
    case True
    then show ?thesis using assms Some by (simp add: OrientationNormalizer_def)
  next
    case False
    then have "OrientationNormalizer x =
        (x\<lparr>img_size := upright_size ori (img_size x),
           img_pixels := upright ori (img_pixels x)\<rparr>)\<lparr>img_orientation := Some Normal\<rparr>"
      using Some by (cases ori) (simp_all add: OrientationNormalizer_def)
    then show ?thesis
      using well_formed_upright[OF assms, of ori] by simp
  qed
qed

lemma well_formed_samples: "well_formed sample_image \<and> well_formed sample_rotated"
  by (simp add: well_formed_def sample_image_def sample_rotated_def)

subsection \<open>Normalising the orientation twice\<close>

lemma normalize_sample_rotated:
  "OrientationNormalizer sample_rotated =
     \<lparr>img_size = (4, 2), img_pixels = [[1, 2, 3, 4], [5, 6, 7, 8]],
      img_orientation = Some Normal\<rparr>"
  by (simp add: OrientationNormalizer_def sample_rotated_def)

text \<open>
  Claim C7. Orientation normalisation is idempotent: for every image buffer \<open>x\<close>, applying
  the normalizer twice gives the buffer that applying it once gives. The reason is the one
  the claim names: the tag of a normalised buffer is normal or absent, and a buffer whose
  tag is normal or absent is left unchanged.
\<close>

theorem orientation_normalizer_idempotent:
  "OrientationNormalizer (OrientationNormalizer x) = OrientationNormalizer x
   \<and> (img_orientation (OrientationNormalizer x) = None
        \<or> img_orientation (OrientationNormalizer x) = Some Normal)
   \<and> (img_orientation y = None \<or> img_orientation y = Some Normal
        \<longrightarrow> OrientationNormalizer y = y)"
proof (intro conjI impI)
  show tag: "img_orientation (OrientationNormalizer x) = None
        \<or> img_orientation (OrientationNormalizer x) = Some Normal"
    by (simp add: OrientationNormalizer_def split: option.splits orientation.splits)
  show fixed: "OrientationNormalizer y = y"
    if "img_orientation y = None \<or> img_orientation y = Some Normal" for y :: "'b image"
    using that by (auto simp: OrientationNormalizer_def)
  show "OrientationNormalizer (OrientationNormalizer x) = OrientationNormalizer x"
    using tag by (auto simp: OrientationNormalizer_def split: option.splits orientation.splits)
qed

theorem orientation_normalizer_idempotent_witness:
  "OrientationNormalizer (OrientationNormalizer sample_rotated) =
     \<lparr>img_size = (4, 2), img_pixels = [[1, 2, 3, 4], [5, 6, 7, 8]],
      img_orientation = Some Normal\<rparr>
   \<and> OrientationNormalizer sample_image = sample_image"
  using orientation_normalizer_idempotent[of sample_rotated sample_image]
  by (simp add: normalize_sample_rotated sample_image_def)

subsection \<open>The conversion over the operations of the spec\<close>

lemma thumbnail_fit_size:
  "img_size (thumbnail_fit rs x (W, H)) =
     (if fst (img_size x) \<le> W \<and> snd (img_size x) \<le> H then img_size x
      else if W * snd (img_size x) \<le> H * fst (img_size x)
           then (W, (W * snd (img_size x)) div fst (img_size x))
           else ((H * fst (img_size x)) div snd (img_size x), H))"
  by (cases "img_size x") (simp add: thumbnail_fit_def Let_def)

lemma scaled_side_le:
  fixes a b c :: int
  assumes "0 < c" "a \<le> c"  "0 \<le> b"
  shows "(a * b) div c \<le> b"
proof -
  have "a * b \<le> c * b"
    using assms by (simp add: mult_right_mono)
  then have "(a * b) div c \<le> (c * b) div c"
    using assms(1) by (rule zdiv_mono1)
  then show ?thesis using assms(1) by simp
qed

lemma binding_side_le:
  fixes W H w0 h0 :: int
  assumes "0 < w0" "0 < h0" "\<not> (w0 \<le> W \<and> h0 \<le> H)" "W * h0 \<le> H * w0"
  shows "W \<le> w0"
proof (rule ccontr)
  assume "\<not> W \<le> w0"
  then have w: "w0 < W" by simp
  with assms(3) have h: "H < h0" by simp
  have "w0 * h0 < W * h0"
    using w assms(2) by (simp add: mult_strict_right_mono)
  moreover have "H * w0 < h0 * w0"
    using h assms(1) by (simp add: mult_strict_right_mono)
  ultimately show False using assms(4) by (simp add: mult.commute)
qed

lemma thumbnail_fit_bounded:
  assumes "img_size x = (w0, h0)" "0 < w0" "0 < h0"
  shows "fst (img_size (thumbnail_fit rs x (W, H))) \<le> w0
       \<and> snd (img_size (thumbnail_fit rs x (W, H))) \<le> h0"
proof (cases "w0 \<le> W \<and> h0 \<le> H")
  case True
  then show ?thesis using assms by (simp add: thumbnail_fit_size)
next
  case fits: False
  show ?thesis
  proof (cases "W * h0 \<le> H * w0")
    case True
    have "W \<le> w0"
      using assms(2,3) fits True by (rule binding_side_le)
    moreover from this have "(W * h0) div w0 \<le> h0"
      using assms(2,3) by (intro scaled_side_le) auto
    ultimately show ?thesis
      using assms fits True by (simp add: thumbnail_fit_size)
  next
    case False
    have "\<not> (h0 \<le> H \<and> w0 \<le> W)" using fits by blast
    moreover have "H * w0 \<le> W * h0" using False by simp
    ultimately have "H \<le> h0"
      using assms(2,3) binding_side_le[of h0 w0 H W] by simp
    moreover from this have "(H * w0) div h0 \<le> w0"
      using assms(2,3) by (intro scaled_side_le) auto
    ultimately show ?thesis
      using assms fits False by (simp add: thumbnail_fit_size)
  qed
qed

lemma spec_pil_simps [simp]:
  "pil_open (spec_pil rs fs) p =
     (case fs p of None \<Rightarrow> Inl (LibraryError ''FileNotFoundError'') | Some x \<Rightarrow> Inr x)"
  "pil_exif_transpose (spec_pil rs fs) x = Inr (OrientationNormalizer x)"
  "pil_getexif (spec_pil rs fs) x = img_orientation x"
  "pil_size (spec_pil rs fs) x = img_size x"
  "pil_fit (spec_pil rs fs) x target = Inr (crop_fit rs x target)"
  "pil_thumbnail (spec_pil rs fs) x box = Inr (thumbnail_fit rs x box)"
  by (simp_all add: spec_pil_def)

lemma spec_conversion_natural:
  assumes "fs orig = Some raw"
    and "img_size (OrientationNormalizer raw) = (w0, h0)" and "w0 \<noteq> 0" "h0 \<noteq> 0"
    and "\<not> (truthy (aspect_ratio_numerator j) \<and> truthy (aspect_ratio_denominator j))"
  shows "handle_image_conversion_job (spec_pil rs fs) j orig =
           ([ImageOpen orig, ExifTranspose, GetExif, Thumbnail (width j, (width j * h0) div w0)],
            Inr (thumbnail_fit rs (OrientationNormalizer raw) (width j, (width j * h0) div w0),
                 img_orientation (OrientationNormalizer raw)))"
proof -
  have c: "calc_size j (pil_size (spec_pil rs fs) (OrientationNormalizer raw))
             = Inr ((width j, (width j * h0) div w0), None)"
    using assms by (simp add: calc_size_natural)
  have o: "pil_open (spec_pil rs fs) orig = Inr raw"
    using assms(1) by simp
  have t: "pil_exif_transpose (spec_pil rs fs) raw = Inr (OrientationNormalizer raw)"
    by simp
  show ?thesis
    using conversion_trace_thumbnail[OF o t c] conversion_result_thumbnail[OF o t c]
    by (simp add: prod_eq_iff)
qed

lemma spec_conversion_custom:
  assumes "fs orig = Some raw"
    and "aspect_ratio_numerator j = Some n" "aspect_ratio_denominator j = Some d"
    and "n \<noteq> 0" "d \<noteq> 0"
  shows "handle_image_conversion_job (spec_pil rs fs) j orig =
           ([ImageOpen orig, ExifTranspose, GetExif, ImageOpsFit (width j, (width j * d) div n)],
            Inr (crop_fit rs (OrientationNormalizer raw) (width j, (width j * d) div n),
                 img_orientation (OrientationNormalizer raw)))"
proof -
  have c: "calc_size j (pil_size (spec_pil rs fs) (OrientationNormalizer raw))
             = Inr ((width j, (width j * d) div n), Some (Fract n d))"
    using assms by (simp add: calc_size_custom)
  have o: "pil_open (spec_pil rs fs) orig = Inr raw"
    using assms(1) by simp
  have t: "pil_exif_transpose (spec_pil rs fs) raw = Inr (OrientationNormalizer raw)"
    by simp
  have nz: "Fract n d \<noteq> 0" using assms by (simp add: Fract_nonzero)
  show ?thesis
    using conversion_trace_fit[OF o t c nz] conversion_result_fit[OF o t c nz]
    by (simp add: prod_eq_iff)
qed

lemma crop_fit_size [simp]: "img_size (crop_fit rs x target) = target"
  by (simp add: crop_fit_def)

lemma natural_box_fits:
  fixes W w0 h0 :: int
  assumes "0 < w0" "0 < h0" "w0 \<le> W"
  shows "h0 \<le> (W * h0) div w0"
proof -
  have "w0 * h0 \<le> W * h0"
    using assms by (simp add: mult_right_mono)
  then have "(w0 * h0) div w0 \<le> (W * h0) div w0"
    using assms(1) by (rule zdiv_mono1)
  then show ?thesis using assms(1) by simp
qed

lemma natural_box_height:
  fixes W w0 h0 :: int
  assumes "0 < w0"
  shows "((W * h0) div w0) * w0 \<le> W * h0"
proof -
  have "((W * h0) div w0) * w0 = W * h0 - (W * h0) mod w0"
    by (simp add: minus_mod_eq_div_mult)
  moreover have "0 \<le> (W * h0) mod w0"
    using assms by simp
  ultimately show ?thesis by simp
qed

subsection \<open>Thumbnail fit never enlarges\<close>

text \<open>
  Claim C8. For every conversion job in natural-ratio mode (the two ratio fields are not
  both given and non-zero), on an original that opens and is normalised to a size
  \<open>(w0, h0)\<close> with positive sides: the job returns an image, after a thumbnail call with
  the box \<open>(W, floor (W * h0 / w0))\<close>, and neither the width nor the height of that image
  exceeds the width \<open>w0\<close> or the height \<open>h0\<close> of the normalised source.
\<close>

theorem thumbnail_never_upscales:
  assumes "fs orig = Some raw"
    and "img_size (OrientationNormalizer raw) = (w0, h0)" and "0 < w0" and "0 < h0"
    and "\<not> (truthy (aspect_ratio_numerator j) \<and> truthy (aspect_ratio_denominator j))"
  shows "\<exists>out exif.
           handle_image_conversion_job (spec_pil rs fs) j orig =
             ([ImageOpen orig, ExifTranspose, GetExif,
               Thumbnail (width j, (width j * h0) div w0)], Inr (out, exif))
           \<and> fst (img_size out) \<le> w0 \<and> snd (img_size out) \<le> h0"
proof -
  have "handle_image_conversion_job (spec_pil rs fs) j orig =
           ([ImageOpen orig, ExifTranspose, GetExif, Thumbnail (width j, (width j * h0) div w0)],
            Inr (thumbnail_fit rs (OrientationNormalizer raw) (width j, (width j * h0) div w0),
                 img_orientation (OrientationNormalizer raw)))"
    using assms by (intro spec_conversion_natural) auto
  moreover have "fst (img_size (thumbnail_fit rs (OrientationNormalizer raw)
                        (width j, (width j * h0) div w0))) \<le> w0
               \<and> snd (img_size (thumbnail_fit rs (OrientationNormalizer raw)
                        (width j, (width j * h0) div w0))) \<le> h0"
    using assms(2,3,4) by (rule thumbnail_fit_bounded)
  ultimately show ?thesis by blast
qed

theorem thumbnail_never_upscales_witness:
  "\<exists>out exif.
     handle_image_conversion_job sample_pil (conversion_job 8 None None) ''rotated.jpg'' =
       ([ImageOpen ''rotated.jpg'', ExifTranspose, GetExif, Thumbnail (8, 4)], Inr (out, exif))
     \<and> fst (img_size out) \<le> 4 \<and> snd (img_size out) \<le> 2"
proof -
  have f: "sample_files ''rotated.jpg'' = Some sample_rotated"
    by (simp add: sample_files_def)
  have s: "img_size (OrientationNormalizer sample_rotated) = (4, 2)"
    by (simp add: normalize_sample_rotated)
  have n: "\<not> (truthy (aspect_ratio_numerator (conversion_job 8 None None))
              \<and> truthy (aspect_ratio_denominator (conversion_job 8 None None)))"
    by (simp add: truthy_def)
  from thumbnail_never_upscales[of sample_files "''rotated.jpg''" sample_rotated 4 2
         "conversion_job 8 None None" blank_canvas] f s n
  show ?thesis by (simp add: sample_pil_def)
qed

subsection \<open>The width of the output\<close>

text \<open>
  Claim C2, as the spec states it: in both modes the width of the output image equals the
  requested width \<open>W\<close> exactly. In natural-ratio mode it does not when the source is
  smaller than the request: the upright sample of 4 by 2 pixels, asked for at width 8, is
  put through a thumbnail call with the box \<open>(8, 4)\<close> and comes back as it is, 4 pixels
  wide.
\<close>

theorem thumbnail_keeps_small_source:
  "handle_image_conversion_job sample_pil (conversion_job 8 None None) ''photo.jpg''
     = ([ImageOpen ''photo.jpg'', ExifTranspose, GetExif, Thumbnail (8, 4)],
        Inr (sample_image, None))
   \<and> img_size sample_image = (4, 2)"
proof -
  have f: "sample_files ''photo.jpg'' = Some sample_image"
    by (simp add: sample_files_def)
  have "img_size sample_image = (4, 2)"
    by (simp add: sample_image_def)
  then have s: "img_size (OrientationNormalizer sample_image) = (4, 2)"
    by simp
  have n: "\<not> (truthy (aspect_ratio_numerator (conversion_job 8 None None))
              \<and> truthy (aspect_ratio_denominator (conversion_job 8 None None)))"
    by (simp add: truthy_def)
  have "thumbnail_fit blank_canvas sample_image (8, 4) = sample_image"
    by (simp add: thumbnail_fit_def sample_image_def)
  moreover have "img_orientation sample_image = None"
    by (simp add: sample_image_def)
  moreover note spec_conversion_natural[of sample_files "''photo.jpg''" sample_image 4 2
         "conversion_job 8 None None" blank_canvas] f s n \<open>img_size sample_image = (4, 2)\<close>
  ultimately show ?thesis by (simp add: sample_pil_def)
qed

text \<open>
  Claim C2, amended. On an original that opens and is normalised to the size \<open>(w0, h0)\<close>:
  in custom-ratio mode (\<open>n > 0\<close>, \<open>d > 0\<close>) the job returns an image whose size is
  \<open>(W, floor (W * d / n))\<close>, of width exactly \<open>W\<close>. In natural-ratio mode, with \<open>w0\<close> and
  \<open>h0\<close> positive, the box handed to thumbnail has width exactly \<open>W\<close>, and the job returns
  an image whose width is at most \<open>W\<close>: it is the source itself, of width \<open>w0\<close>, when
  \<open>w0 \<le> W\<close>, and it has width exactly \<open>W\<close> when \<open>W \<le> w0\<close> and \<open>W * h0 / w0\<close> is a
  whole number.
\<close>

theorem output_width:
  assumes "fs orig = Some raw"
    and "img_size (OrientationNormalizer raw) = (w0, h0)"
  shows "(\<forall>n d. aspect_ratio_numerator j = Some n \<and> aspect_ratio_denominator j = Some d
                \<and> 0 < n \<and> 0 < d \<longrightarrow>
            (\<exists>out exif.
               handle_image_conversion_job (spec_pil rs fs) j orig =
                 ([ImageOpen orig, ExifTranspose, GetExif,
                   ImageOpsFit (width j, (width j * d) div n)], Inr (out, exif))
               \<and> img_size out = (width j, (width j * d) div n)))
       \<and> (\<not> (truthy (aspect_ratio_numerator j) \<and> truthy (aspect_ratio_denominator j))
             \<and> 0 < w0 \<and> 0 < h0 \<longrightarrow>
            (\<exists>out exif.
               handle_image_conversion_job (spec_pil rs fs) j orig =
                 ([ImageOpen orig, ExifTranspose, GetExif,
                   Thumbnail (width j, (width j * h0) div w0)], Inr (out, exif))
               \<and> fst (img_size out) \<le> width j
               \<and> (w0 \<le> width j \<longrightarrow> img_size out = (w0, h0))
               \<and> (width j \<le> w0 \<and> w0 dvd width j * h0 \<longrightarrow>
                     img_size out = (width j, (width j * h0) div w0))))"
proof (intro conjI allI impI)
  fix n d
  assume a: "aspect_ratio_numerator j = Some n \<and> aspect_ratio_denominator j = Some d
                \<and> 0 < n \<and> 0 < d"
  then have "handle_image_conversion_job (spec_pil rs fs) j orig =
           ([ImageOpen orig, ExifTranspose, GetExif, ImageOpsFit (width j, (width j * d) div n)],
            Inr (crop_fit rs (OrientationNormalizer raw) (width j, (width j * d) div n),
                 img_orientation (OrientationNormalizer raw)))"
    using assms(1) by (intro spec_conversion_custom) auto
  then show "\<exists>out exif.
               handle_image_conversion_job (spec_pil rs fs) j orig =
                 ([ImageOpen orig, ExifTranspose, GetExif,
                   ImageOpsFit (width j, (width j * d) div n)], Inr (out, exif))
               \<and> img_size out = (width j, (width j * d) div n)"
    by simp
next
  let ?W = "width j"
  let ?H = "(width j * h0) div w0"
  let ?out = "thumbnail_fit rs (OrientationNormalizer raw) (?W, ?H)"
  assume a: "\<not> (truthy (aspect_ratio_numerator j) \<and> truthy (aspect_ratio_denominator j))
             \<and> 0 < w0 \<and> 0 < h0"
  then have run: "handle_image_conversion_job (spec_pil rs fs) j orig =
           ([ImageOpen orig, ExifTranspose, GetExif, Thumbnail (?W, ?H)],
            Inr (?out, img_orientation (OrientationNormalizer raw)))"
    using assms by (intro spec_conversion_natural) auto
  have sz: "img_size ?out =
     (if w0 \<le> ?W \<and> h0 \<le> ?H then (w0, h0)
      else if ?W * h0 \<le> ?H * w0 then (?W, (?W * h0) div w0)
           else ((?H * w0) div h0, ?H))"
    using assms(2) by (simp add: thumbnail_fit_size)
  have floor: "?H * w0 \<le> ?W * h0"
    using a by (simp add: natural_box_height)
  have up: "img_size ?out = (w0, h0)" if "w0 \<le> ?W"
    using that a sz natural_box_fits[of w0 h0 ?W] by simp
  have exact: "img_size ?out = (?W, ?H)" if "?W \<le> w0 \<and> w0 dvd ?W * h0"
  proof (cases "w0 \<le> ?W \<and> h0 \<le> ?H")
    case True
    then have "?W = w0" using that by simp
    then show ?thesis using a up by simp
  next
    case False
    have "?H * w0 = ?W * h0"
      using that by simp
    then show ?thesis using False sz by auto
  qed
  have le: "fst (img_size ?out) \<le> ?W"
  proof (cases "w0 \<le> ?W \<and> h0 \<le> ?H")
    case True
    then show ?thesis using sz by simp
  next
    case False
    have "(?H * w0) div h0 \<le> (?W * h0) div h0"
      using floor a by (intro zdiv_mono1) auto
    then have "(?H * w0) div h0 \<le> ?W"
      using a by simp
    then show ?thesis using False sz by simp
  qed
  from run le up exact
  show "\<exists>out exif.
               handle_image_conversion_job (spec_pil rs fs) j orig =
                 ([ImageOpen orig, ExifTranspose, GetExif,
                   Thumbnail (width j, (width j * h0) div w0)], Inr (out, exif))
               \<and> fst (img_size out) \<le> width j
               \<and> (w0 \<le> width j \<longrightarrow> img_size out = (w0, h0))
               \<and> (width j \<le> w0 \<and> w0 dvd width j * h0 \<longrightarrow>
                     img_size out = (width j, (width j * h0) div w0))"
    by blast
qed

theorem output_width_witness:
  "(\<exists>out exif.
      handle_image_conversion_job sample_pil (conversion_job 8 (Some 2) (Some 1)) ''photo.jpg'' =
        ([ImageOpen ''photo.jpg'', ExifTranspose, GetExif, ImageOpsFit (8, 4)], Inr (out, exif))
      \<and> img_size out = (8, 4))
   \<and> (\<exists>out exif.
      handle_image_conversion_job sample_pil (conversion_job 3 None None) ''photo.jpg'' =
        ([ImageOpen ''photo.jpg'', ExifTranspose, GetExif, Thumbnail (3, 1)], Inr (out, exif))
      \<and> fst (img_size out) \<le> 3)"
proof -
  have f: "sample_files ''photo.jpg'' = Some sample_image"
    by (simp add: sample_files_def)
  have "img_size sample_image = (4, 2)"
    by (simp add: sample_image_def)
  then have s: "img_size (OrientationNormalizer sample_image) = (4, 2)"
    by simp
  from output_width[of sample_files "''photo.jpg''" sample_image 4 2
         "conversion_job 8 (Some 2) (Some 1)" blank_canvas] f s
  have one: "\<exists>out exif.
      handle_image_conversion_job sample_pil (conversion_job 8 (Some 2) (Some 1)) ''photo.jpg'' =
        ([ImageOpen ''photo.jpg'', ExifTranspose, GetExif, ImageOpsFit (8, 4)], Inr (out, exif))
      \<and> img_size out = (8, 4)"
    by (simp add: sample_pil_def)
  from output_width[of sample_files "''photo.jpg''" sample_image 4 2
         "conversion_job 3 None None" blank_canvas] f s
  have two: "\<exists>out exif.
      handle_image_conversion_job sample_pil (conversion_job 3 None None) ''photo.jpg'' =
        ([ImageOpen ''photo.jpg'', ExifTranspose, GetExif, Thumbnail (3, 1)], Inr (out, exif))
      \<and> fst (img_size out) \<le> 3"
    by (simp add: sample_pil_def truthy_def)
  from one two show ?thesis by simp
qed

end
